theory Spec2Isabelle
  imports Complex_Main "HOL-Library.Word"
begin

unbundle bit_operations_syntax

section \<open>Machine integers\<close>

text \<open>
  Signed C++ integers are modelled as \<open>int\<close>, with the two's complement wrap-around of
  each width written out: \<open>i8\<close>, \<open>i16\<close> and \<open>i32\<close> reduce a mathematical integer to the
  value an \<open>int8_t\<close>, \<open>int16_t\<close> or \<open>int32_t\<close> holds after a conversion or an
  arithmetic operation. Unsigned fields are words. A sample (\<open>mono_t\<close>, a 32-bit float)
  is modelled as the real number it denotes. Where the source computes with floats and
  the result need not be exact, the model applies the rounding function \<open>rnd\<close>, a
  parameter of the function, to the exact result of each operation: \<open>rnd x\<close> stands for the
  float nearest to \<open>x\<close>.
\<close>

definition i8 :: "int \<Rightarrow> int" where
  "i8 x = (x + 128) mod 256 - 128"

definition i16 :: "int \<Rightarrow> int" where
  "i16 x = (x + 32768) mod 65536 - 32768"

definition i32 :: "int \<Rightarrow> int" where
  "i32 x = (x + 2147483648) mod 4294967296 - 2147483648"

text \<open>\<open>a + b\<close>, \<open>a * b\<close>, \<open>a << k\<close> and \<open>a >> k\<close> on \<open>int32_t\<close>.\<close>

definition add32 :: "int \<Rightarrow> int \<Rightarrow> int" where
  "add32 a b = i32 (a + b)"

definition mul32 :: "int \<Rightarrow> int \<Rightarrow> int" where
  "mul32 a b = i32 (a * b)"

definition shl32 :: "int \<Rightarrow> nat \<Rightarrow> int" where
  "shl32 a k = i32 (a * 2 ^ k)"

definition sar32 :: "int \<Rightarrow> nat \<Rightarrow> int" where
  "sar32 a k = a div 2 ^ k"

text \<open>\<open>clamp\<close> of utility.h, instantiated at \<open>int32_t\<close>.\<close>

definition clamp :: "int \<Rightarrow> int \<Rightarrow> int \<Rightarrow> int" where
  "clamp val min_value max_value =
     (if val \<le> min_value then min_value
      else if val \<ge> max_value then max_value else val)"

section \<open>ADPCM decoder (adpcm.h, adpcm.cpp)\<close>

datatype error =
    Corrupt_ADPCM_block
  | Unsupported_event_code "8 word"
  | Read_beyond_end
  | Invalid_seek

definition PSXDMH_ADPCM_BLOCK_SIZE :: nat where
  "PSXDMH_ADPCM_BLOCK_SIZE = 16"

definition PSXDMH_ADPCM_SAMPLES_PER_BLOCK :: nat where
  "PSXDMH_ADPCM_SAMPLES_PER_BLOCK = 28"

definition m_pos_table :: "int list" where
  "m_pos_table = [0, 60, 115, 98, 122]"

definition m_neg_table :: "int list" where
  "m_neg_table = [0, 0, -52, -55, -60]"

record adpcm =
  m_data :: "8 word list"
  m_play_count :: "32 word"
  m_current :: int
  m_repeat :: int
  m_s0 :: int
  m_s1 :: int
  m_buffer :: "int list"
  m_buffer_next :: nat

text \<open>The constructor. The sample buffer is uninitialised in the source and marked empty.\<close>

definition adpcm_new :: "8 word list \<Rightarrow> 32 word \<Rightarrow> adpcm" where
  "adpcm_new data play_count =
     \<lparr>m_data = data, m_play_count = play_count, m_current = 0, m_repeat = -1,
      m_s0 = 0, m_s1 = 0, m_buffer = replicate 28 0,
      m_buffer_next = PSXDMH_ADPCM_SAMPLES_PER_BLOCK\<rparr>"

text \<open>The flag tests take the block, a pointer into the data, here the rest of the data.\<close>

definition is_repeat_start :: "8 word list \<Rightarrow> bool" where
  "is_repeat_start block = ((block ! 1) AND 0x04 = 0x04)"

definition is_final :: "8 word list \<Rightarrow> bool" where
  "is_final block = ((block ! 1) AND 0x01 = 0x01)"

definition is_repeat_jump :: "8 word list \<Rightarrow> bool" where
  "is_repeat_jump block = ((block ! 1) AND 0x03 = 0x03)"

definition is_buffer_empty :: "adpcm \<Rightarrow> bool" where
  "is_buffer_empty a = (m_buffer_next a \<ge> PSXDMH_ADPCM_SAMPLES_PER_BLOCK)"

definition decrement_play_count :: "32 word \<Rightarrow> 32 word" where
  "decrement_play_count count = (if count > 0 then count - 1 else count)"

definition adpcm_is_running :: "adpcm \<Rightarrow> bool" where
  "adpcm_is_running a = (\<not> is_buffer_empty a \<or> m_current a \<ge> 0)"

definition current_block :: "adpcm \<Rightarrow> 8 word list" where
  "current_block a = drop (nat (m_current a)) (m_data a)"

text \<open>The unpacking loop: two \<open>int8_t\<close> values per data byte, the low nybble first, each
  with its four bits in the high half of the byte.\<close>

definition unpack :: "8 word list \<Rightarrow> int list" where
  "unpack data =
     concat (map (\<lambda>d. [i8 (i8 (uint (d AND 0x0f)) * 2 ^ 4), i8 (uint (d AND 0xf0))]) data)"

text \<open>The decoding loop, threading the two previous samples.\<close>

fun decode_samples :: "nat \<Rightarrow> nat \<Rightarrow> int list \<Rightarrow> int \<Rightarrow> int \<Rightarrow> int list \<times> int \<times> int" where
  "decode_samples fltr shift [] s0 s1 = ([], s0, s1)"
| "decode_samples fltr shift (n # ns) s0 s1 =
     (let s = sar32 (shl32 n 8) shift;
          s = add32 s (sar32 (add32 (add32 (mul32 s0 (m_pos_table ! fltr))
                                           (mul32 s1 (m_neg_table ! fltr))) 32) 6);
          b = i16 (clamp s (-32768) 32767);
          (bs, s0', s1') = decode_samples fltr shift ns b s0
      in (b # bs, s0', s1'))"

definition decode_block :: "adpcm \<Rightarrow> error + adpcm" where
  "decode_block a =
     (let block = current_block a;
          fltr = unat (drop_bit 4 (block ! 0))
      in if fltr \<ge> length m_pos_table then Inl Corrupt_ADPCM_block
         else
           let shift = unat ((block ! 0) AND 0x0f);
               a = (if is_repeat_start block then a\<lparr>m_repeat := m_current a\<rparr> else a);
               nybble = unpack (take (PSXDMH_ADPCM_SAMPLES_PER_BLOCK div 2) (drop 2 block));
               (buf, s0, s1) = decode_samples fltr shift nybble (m_s0 a) (m_s1 a)
           in Inr (a\<lparr>m_buffer := buf, m_buffer_next := 0, m_s0 := s0, m_s1 := s1\<rparr>))"

definition next_block :: "adpcm \<Rightarrow> adpcm" where
  "next_block a =
     (let block = current_block a
      in if is_final block then
           (if \<not> is_repeat_jump block \<or> m_repeat a < 0 \<or> m_play_count a = 1
            then a\<lparr>m_current := -1\<rparr>
            else a\<lparr>m_play_count := decrement_play_count (m_play_count a),
                   m_current := m_repeat a\<rparr>)
         else a\<lparr>m_current := add32 (m_current a) (int PSXDMH_ADPCM_BLOCK_SIZE)\<rparr>)"

text \<open>\<open>next\<close> returns the updated decoder, the sample and the running flag, or the error
  thrown by the decoding of a block.\<close>

definition adpcm_next :: "adpcm \<Rightarrow> error + (adpcm \<times> real \<times> bool)" where
  "adpcm_next a =
     (if is_buffer_empty a \<and> m_current a < 0 then Inr (a, 0, False)
      else
        case (if is_buffer_empty a then map_sum id next_block (decode_block a) else Inr a) of
          Inl e \<Rightarrow> Inl e
        | Inr a' \<Rightarrow>
            Inr (a'\<lparr>m_buffer_next := m_buffer_next a' + 1\<rparr>,
                 real_of_int (m_buffer a' ! m_buffer_next a') / 32768, True))"

text \<open>Repeated calls of \<open>next\<close>, collecting what each call returned.\<close>

fun adpcm_pull :: "nat \<Rightarrow> adpcm \<Rightarrow> error + (adpcm \<times> (real \<times> bool) list)" where
  "adpcm_pull 0 a = Inr (a, [])"
| "adpcm_pull (Suc n) a =
     (case adpcm_next a of
        Inl e \<Rightarrow> Inl e
      | Inr (a', x, r) \<Rightarrow>
          (case adpcm_pull n a' of
             Inl e \<Rightarrow> Inl e
           | Inr (a'', xs) \<Rightarrow> Inr (a'', (x, r) # xs)))"

text \<open>
  The decoding as the specification states it, in unbounded integer arithmetic:
  \<open>nybble_of v\<close> is the four-bit value \<open>v\<close> as a signed \<open>int8_t\<close> with its bits in the
  high half, \<open>sample_formula\<close> is one decoded sample and \<open>samples_formula\<close> threads the
  two previous samples through a block. \<open>block_ready\<close> holds of a decoder that is about
  to decode a whole block of its data, with its two previous samples in the 16-bit range.
\<close>

definition sample_formula :: "nat \<Rightarrow> nat \<Rightarrow> int \<Rightarrow> int \<Rightarrow> int \<Rightarrow> int" where
  "sample_formula fltr shift n s0 s1 =
     max (-32768) (min 32767
       ((n * 256) div 2 ^ shift
          + (s0 * (m_pos_table ! fltr) + s1 * (m_neg_table ! fltr) + 32) div 64))"

fun samples_formula :: "nat \<Rightarrow> nat \<Rightarrow> int list \<Rightarrow> int \<Rightarrow> int \<Rightarrow> int list" where
  "samples_formula fltr shift [] s0 s1 = []"
| "samples_formula fltr shift (n # ns) s0 s1 =
     (let s = sample_formula fltr shift n s0 s1
      in s # samples_formula fltr shift ns s s0)"

definition nybble_of :: "int \<Rightarrow> int" where
  "nybble_of v = (if v \<ge> 8 then v - 16 else v) * 16"

definition block_nybbles :: "8 word list \<Rightarrow> int list" where
  "block_nybbles block =
     concat (map (\<lambda>d. [nybble_of (uint d mod 16), nybble_of (uint d div 16)])
       (take 14 (drop 2 block)))"

definition block_samples :: "adpcm \<Rightarrow> int list" where
  "block_samples a =
     (let block = current_block a
      in samples_formula (unat (block ! 0) div 16) (unat (block ! 0) mod 16)
           (block_nybbles block) (m_s0 a) (m_s1 a))"

definition block_ready :: "adpcm \<Rightarrow> bool" where
  "block_ready a =
     (is_buffer_empty a \<and> 0 \<le> m_current a
      \<and> nat (m_current a) + 16 \<le> length (m_data a)
      \<and> -32768 \<le> m_s0 a \<and> m_s0 a \<le> 32767 \<and> -32768 \<le> m_s1 a \<and> m_s1 a \<le> 32767)"

section \<open>ADSR envelope (envelope.h, envelope.cpp)\<close>

datatype phase = ep_attack | ep_decay | ep_sustain | ep_release | ep_stopped

datatype envelope_method = method_linear | method_exponential

datatype direction = direction_increase | direction_decrease

record config =
  cfg_method :: envelope_method
  cfg_direction :: direction
  cfg_shift :: int
  cfg_step :: int
  cfg_target :: int

text \<open>\<open>m_config\<close> is an array of \<open>ep_number_of_phases = 4\<close> entries indexed by the phase.\<close>

record envelope =
  m_config :: "config list"
  m_phase :: phase
  m_volume :: int
  m_cycle_repeats :: "32 word"
  m_cycle_wait :: "32 word"
  m_cycle_current_wait :: "32 word"
  m_cycle_step :: int

fun phase_index :: "phase \<Rightarrow> nat" where
  "phase_index ep_attack = 0"
| "phase_index ep_decay = 1"
| "phase_index ep_sustain = 2"
| "phase_index ep_release = 3"
| "phase_index ep_stopped = 4"

text \<open>\<open>phase(m_phase + 1)\<close>; it is only evaluated while the envelope is running.\<close>

fun next_phase :: "phase \<Rightarrow> phase" where
  "next_phase ep_attack = ep_decay"
| "next_phase ep_decay = ep_sustain"
| "next_phase ep_sustain = ep_release"
| "next_phase ep_release = ep_stopped"
| "next_phase ep_stopped = ep_stopped"

definition envelope_new :: "16 word \<Rightarrow> 16 word \<Rightarrow> envelope" where
  "envelope_new spu_ads spu_sr =
     (let sustain_direction =
            (if spu_sr AND 0x4000 = 0 then direction_increase else direction_decrease)
      in \<lparr>m_config =
            [\<lparr>cfg_method = (if spu_ads AND 0x8000 = 0 then method_linear else method_exponential),
              cfg_direction = direction_increase,
              cfg_shift = uint (drop_bit 10 spu_ads AND 0x1f),
              cfg_step = 7 - uint (drop_bit 8 spu_ads AND 0x03),
              cfg_target = 0x7fff\<rparr>,
             \<lparr>cfg_method = method_exponential,
              cfg_direction = direction_decrease,
              cfg_shift = uint (drop_bit 4 spu_ads AND 0x0f),
              cfg_step = -8,
              cfg_target = mul32 (uint (spu_ads AND 0x0f) + 1) 0x800\<rparr>,
             \<lparr>cfg_method = (if spu_sr AND 0x8000 = 0 then method_linear else method_exponential),
              cfg_direction = sustain_direction,
              cfg_shift = uint (drop_bit 8 spu_sr AND 0x1f),
              cfg_step = (if sustain_direction = direction_increase
                          then 7 - uint (drop_bit 6 spu_sr AND 0x03)
                          else -8 + uint (drop_bit 6 spu_sr AND 0x03)),
              cfg_target = (if sustain_direction = direction_increase then 0x8000 else -1)\<rparr>,
             \<lparr>cfg_method = (if spu_sr AND 0x20 = 0 then method_linear else method_exponential),
              cfg_direction = direction_decrease,
              cfg_shift = uint (spu_sr AND 0x1f),
              cfg_step = -8,
              cfg_target = 0\<rparr>],
          m_phase = ep_attack, m_volume = 0,
          m_cycle_repeats = 1, m_cycle_wait = 1, m_cycle_current_wait = 1, m_cycle_step = 0\<rparr>)"

text \<open>The decomposition loop of \<open>calculate_cycle\<close> on (repeats, wait, step): it halves the
  wait and the step while both are even. It ends because a non-zero even step gets smaller
  in magnitude.\<close>

function decompose :: "32 word \<Rightarrow> 32 word \<Rightarrow> int \<Rightarrow> 32 word \<times> 32 word \<times> int" where
  "decompose repeats wait step =
     (if wait AND 1 = 0 \<and> step \<noteq> 0 \<and> step AND 1 = 0
      then decompose (push_bit 1 repeats) (drop_bit 1 wait) (sar32 step 1)
      else (repeats, wait, step))"
  by pat_completeness auto
termination
proof (relation "measure (\<lambda>(repeats, wait, step). nat \<bar>step\<bar>)")
  show "wf (measure (\<lambda>(repeats, wait, step). nat \<bar>step\<bar>))"
    by simp
next
  fix repeats wait :: "32 word" and step :: int
  assume a: "wait AND 1 = 0 \<and> step \<noteq> 0 \<and> step AND 1 = 0"
  then have "even step"
    by (simp add: and_one_eq even_iff_mod_2_eq_zero)
  with a have "\<bar>step div 2\<bar> < \<bar>step\<bar>"
    by (auto elim!: evenE)
  then show "((push_bit 1 repeats, drop_bit 1 wait, sar32 step 1), (repeats, wait, step))
      \<in> measure (\<lambda>(repeats, wait, step). nat \<bar>step\<bar>)"
    by (simp add: sar32_def)
qed

declare decompose.simps [simp del]

text \<open>\<open>uint32_t(x)\<close> of a signed value.\<close>

definition u32 :: "int \<Rightarrow> int" where
  "u32 x = x mod 4294967296"

definition calculate_cycle :: "envelope \<Rightarrow> envelope" where
  "calculate_cycle e =
     (let config = m_config e ! phase_index (m_phase e);
          wait = push_bit (nat (max (cfg_shift config - 11) 0)) (1 :: 32 word);
          step = i32 (u32 (u32 (cfg_step config) * 2 ^ nat (max (11 - cfg_shift config) 0)));
          (wait, step) =
            (if cfg_method config = method_exponential then
               (if cfg_direction config = direction_increase \<and> m_volume e > 0x6000
                then (wait * 4, step)
                else if cfg_direction config = direction_decrease
                then (wait, sar32 (mul32 step (m_volume e)) 15)
                else (wait, step))
             else (wait, step));
          (repeats, wait, step) = decompose 1 wait step
      in e\<lparr>m_cycle_repeats := repeats, m_cycle_wait := wait, m_cycle_step := step,
            m_cycle_current_wait := wait\<rparr>)"

text \<open>\<open>next\<close> returns the updated envelope, the sample and the running flag.\<close>

definition envelope_next :: "envelope \<Rightarrow> envelope \<times> real \<times> bool" where
  "envelope_next e =
     (let mono = real_of_int (m_volume e) / 0x7fff;
          running = (m_phase e \<noteq> ep_stopped)
      in if running then
           let e = e\<lparr>m_cycle_current_wait := m_cycle_current_wait e - 1\<rparr>
           in if m_cycle_current_wait e = 0 then
                let e = e\<lparr>m_volume := clamp (add32 (m_volume e) (m_cycle_step e)) 0 0x7fff\<rparr>;
                    e = e\<lparr>m_cycle_repeats := m_cycle_repeats e - 1\<rparr>
                in if m_cycle_repeats e > 0
                   then (e\<lparr>m_cycle_current_wait := m_cycle_wait e\<rparr>, mono, running)
                   else
                     let cfg = m_config e ! phase_index (m_phase e);
                         reached = (if cfg_direction cfg = direction_increase
                                    then m_volume e \<ge> cfg_target cfg
                                    else m_volume e \<le> cfg_target cfg);
                         e = (if reached then e\<lparr>m_phase := next_phase (m_phase e)\<rparr> else e);
                         e = (if m_phase e \<noteq> ep_stopped then calculate_cycle e else e)
                     in (e, mono, running)
              else (e, mono, running)
         else (e, mono, running))"

definition release :: "envelope \<Rightarrow> envelope" where
  "release e =
     (if m_phase e \<noteq> ep_stopped then calculate_cycle (e\<lparr>m_phase := ep_release\<rparr>) else e)"

text \<open>What a caller can do with an envelope: pull a sample or release it.\<close>

datatype envelope_op = Next | Release

fun envelope_call :: "envelope \<Rightarrow> envelope_op \<Rightarrow> envelope" where
  "envelope_call e Next = fst (envelope_next e)"
| "envelope_call e Release = release e"

definition envelope_calls :: "envelope \<Rightarrow> envelope_op list \<Rightarrow> envelope" where
  "envelope_calls e cs = foldl envelope_call e cs"

section \<open>Sources and samples (module.h, sample.h)\<close>






section \<open>Silencer (silencer.h)\<close>











section \<open>Sinc resampler (resampler.h, resampler.cpp)\<close>
















section \<open>Channel (channel.h, channel.cpp)\<close>

text \<open>The channel owns a resampler and an envelope. \<open>m_running\<close> stands for
  \<open>m_resampler != nullptr\<close>, and what the two modules return from \<open>next\<close> is passed to
  \<open>channel_next\<close> as a pair of the sample and the live flag. A stereo sample is a pair
  (left, right). The arithmetic is in floats: each product and quotient is rounded by
  \<open>rnd\<close>. The integers \<open>128 - m_pan\<close> and \<open>m_pan + 1\<close> convert to floats exactly.\<close>

record channel =
  m_running :: bool
  m_pan :: "8 word"
  m_volume_lr :: "real \<times> real"

definition master_volume :: "(real \<Rightarrow> real) \<Rightarrow> channel \<Rightarrow> real \<Rightarrow> channel" where
  "master_volume rnd c vol =
     c\<lparr>m_volume_lr := (rnd (rnd (vol * real_of_int (128 - uint (m_pan c))) / 128),
                       rnd (rnd (vol * real_of_int (uint (m_pan c) + 1)) / 128))\<rparr>"

definition channel_new :: "(real \<Rightarrow> real) \<Rightarrow> real \<Rightarrow> 8 word \<Rightarrow> channel" where
  "channel_new rnd vol pan =
     master_volume rnd \<lparr>m_running = True, m_pan = pan, m_volume_lr = (0, 0)\<rparr> vol"

text \<open>\<open>s = waveform * envelope * m_volume\<close>: the product of the two mono samples first, then
  each component of the volume times that product.\<close>

definition channel_next ::
  "(real \<Rightarrow> real) \<Rightarrow> channel \<Rightarrow> real \<times> bool \<Rightarrow> real \<times> bool
     \<Rightarrow> channel \<times> (real \<times> real) \<times> bool" where
  "channel_next rnd c resampled enveloped =
     (if \<not> m_running c then (c, (0, 0), False)
      else
        let (waveform, resampler_live) = resampled;
            (envelope, envelope_live) = enveloped;
            v = rnd (waveform * envelope);
            s = (rnd (fst (m_volume_lr c) * v), rnd (snd (m_volume_lr c) * v));
            c = (if \<not> resampler_live \<or> \<not> envelope_live then c\<lparr>m_running := False\<rparr> else c)
        in (c, s, True))"

section \<open>Music stream parser (music_stream.h, music_stream.cpp)\<close>

datatype music_event_code =
    note_on | note_off | set_instrument | pitch_bend | volume | pan_offset
  | set_marker | jump_to_marker | unknown_0b | unknown_0e | eos

record music_event =
  ev_code :: music_event_code
  data_0 :: int
  data_1 :: int

record music_stream =
  m_track_data :: "8 word list"
  m_position :: nat
  m_caller_ticks_per_minute :: "32 word"
  m_track_ticks_per_minute :: "32 word"
  m_tick_position :: "32 word"
  m_tick_fraction :: "32 word"
  m_next_event_time :: "32 word"

definition stream_is_running :: "music_stream \<Rightarrow> bool" where
  "stream_is_running ms = (m_position ms < length (m_track_data ms))"

definition have_event :: "music_stream \<Rightarrow> bool" where
  "have_event ms =
     (m_position ms < length (m_track_data ms) \<and> m_next_event_time ms \<le> m_tick_position ms)"

definition get_byte :: "music_stream \<Rightarrow> error + (8 word \<times> music_stream)" where
  "get_byte ms =
     (if m_position ms + 1 > length (m_track_data ms) then Inl Read_beyond_end
      else Inr (m_track_data ms ! m_position ms, ms\<lparr>m_position := m_position ms + 1\<rparr>))"

definition get_word :: "music_stream \<Rightarrow> error + (16 word \<times> music_stream)" where
  "get_word ms =
     (if m_position ms + 2 > length (m_track_data ms) then Inl Read_beyond_end
      else
        let temp = ucast (m_track_data ms ! m_position ms)
                     OR push_bit 8 (ucast (m_track_data ms ! (m_position ms + 1)))
        in Inr (temp, ms\<lparr>m_position := m_position ms + 2\<rparr>))"

text \<open>The loop of \<open>get_delta\<close>, with the delta accumulated so far.\<close>

function get_delta_loop :: "music_stream \<Rightarrow> 32 word \<Rightarrow> error + (32 word \<times> music_stream)" where
  "get_delta_loop ms delta =
     (case get_byte ms of
        Inl e \<Rightarrow> Inl e
      | Inr (byte, ms') \<Rightarrow>
          let delta' = push_bit 7 delta OR ucast (byte AND 0x7f)
          in if byte AND 0x80 \<noteq> 0 then get_delta_loop ms' delta' else Inr (delta', ms'))"
  by pat_completeness auto
termination
  by (relation "measure (\<lambda>(ms, delta). length (m_track_data ms) - m_position ms)")
     (auto simp: get_byte_def split: if_splits)

declare get_delta_loop.simps [simp del]

definition get_delta :: "music_stream \<Rightarrow> error + (32 word \<times> music_stream)" where
  "get_delta ms = get_delta_loop ms 0"

text \<open>The \<open>switch\<close> of \<open>get_event\<close> on the event code just read.\<close>

definition read_byte_event ::
  "music_event_code \<Rightarrow> music_stream \<Rightarrow> error + (music_event \<times> music_stream)" where
  "read_byte_event c ms =
     (case get_byte ms of
        Inl e \<Rightarrow> Inl e
      | Inr (b, ms') \<Rightarrow> Inr (\<lparr>ev_code = c, data_0 = uint b, data_1 = 0\<rparr>, ms'))"

definition read_event :: "8 word \<Rightarrow> music_stream \<Rightarrow> error + (music_event \<times> music_stream)" where
  "read_event c ms =
     (if c = 0x11 then
        (case get_byte ms of
           Inl e \<Rightarrow> Inl e
         | Inr (b0, ms0) \<Rightarrow>
             (case get_byte ms0 of
                Inl e \<Rightarrow> Inl e
              | Inr (b1, ms1) \<Rightarrow>
                  Inr (\<lparr>ev_code = note_on, data_0 = uint b0, data_1 = uint b1\<rparr>, ms1)))
      else if c = 0x12 then read_byte_event note_off ms
      else if c = 0x07 then
        (case get_word ms of
           Inl e \<Rightarrow> Inl e
         | Inr (w, ms') \<Rightarrow> Inr (\<lparr>ev_code = set_instrument, data_0 = uint w, data_1 = 0\<rparr>, ms'))
      else if c = 0x09 then
        (case get_word ms of
           Inl e \<Rightarrow> Inl e
         | Inr (w, ms') \<Rightarrow> Inr (\<lparr>ev_code = pitch_bend, data_0 = sint w, data_1 = 0\<rparr>, ms'))
      else if c = 0x0c then read_byte_event volume ms
      else if c = 0x0d then read_byte_event pan_offset ms
      else if c = 0x23 then
        Inr (\<lparr>ev_code = set_marker, data_0 = i32 (int (m_position ms) - 1), data_1 = 0\<rparr>, ms)
      else if c = 0x20 then
        (case get_word ms of
           Inl e \<Rightarrow> Inl e
         | Inr (w, ms') \<Rightarrow> Inr (\<lparr>ev_code = jump_to_marker, data_0 = uint w, data_1 = 0\<rparr>, ms'))
      else if c = 0x0b then read_byte_event unknown_0b ms
      else if c = 0x0e then read_byte_event unknown_0e ms
      else if c = 0x22 then
        Inr (\<lparr>ev_code = eos, data_0 = 0, data_1 = 0\<rparr>,
             ms\<lparr>m_position := length (m_track_data ms)\<rparr>)
      else Inl (Unsupported_event_code c))"

text \<open>\<open>get_event\<close> returns the event extracted, or \<open>None\<close> where the source returns
  \<open>false\<close>, with the updated stream; or the error thrown.\<close>

definition get_event :: "music_stream \<Rightarrow> error + (music_event option \<times> music_stream)" where
  "get_event ms =
     (if have_event ms then
        (case get_byte ms of
           Inl e \<Rightarrow> Inl e
         | Inr (c, ms1) \<Rightarrow>
             (case read_event c ms1 of
                Inl e \<Rightarrow> Inl e
              | Inr (ev, ms2) \<Rightarrow>
                  if m_position ms2 < length (m_track_data ms2) then
                    (case get_delta ms2 of
                       Inl e \<Rightarrow> Inl e
                     | Inr (d, ms3) \<Rightarrow>
                         Inr (Some ev, ms3\<lparr>m_next_event_time := m_next_event_time ms3 + d\<rparr>))
                  else Inr (Some ev, ms2)))
      else Inr (None, ms))"

definition seek :: "music_stream \<Rightarrow> nat \<Rightarrow> error + music_stream" where
  "seek ms pos =
     (if pos > length (m_track_data ms) then Inl Invalid_seek
      else Inr (ms\<lparr>m_position := pos\<rparr>))"

text \<open>The constructor, from the data, \<open>ticks_per_beat\<close> and \<open>beats_per_minute\<close> of the
  track and the caller's ticks per minute. It reads the first delta, so it can throw.\<close>

definition music_stream_new ::
  "8 word list \<Rightarrow> 16 word \<Rightarrow> 16 word \<Rightarrow> 32 word \<Rightarrow> error + music_stream" where
  "music_stream_new track_data ticks_per_beat beats_per_minute ticks_per_minute =
     (let ms = \<lparr>m_track_data = track_data, m_position = 0,
                m_caller_ticks_per_minute = ticks_per_minute,
                m_track_ticks_per_minute = ucast ticks_per_beat * ucast beats_per_minute,
                m_tick_position = 0, m_tick_fraction = 0, m_next_event_time = 0\<rparr>
      in case get_delta ms of
           Inl e \<Rightarrow> Inl e
         | Inr (d, ms') \<Rightarrow> Inr (ms'\<lparr>m_next_event_time := d\<rparr>))"

text \<open>
  The cases in which the parser is specified to fail, written from the specification.
  The eleven defined event codes, with the size of the payload of each:
\<close>

definition payload_size :: "8 word \<Rightarrow> nat option" where
  "payload_size c =
     (if c = 0x11 then Some 2
      else if c \<in> {0x12, 0x0c, 0x0d, 0x0b, 0x0e} then Some 1
      else if c \<in> {0x07, 0x09, 0x20} then Some 2
      else if c \<in> {0x23, 0x22} then Some 0
      else None)"

text \<open>A delta read at \<open>pos\<close> runs past the end when every byte from \<open>pos\<close> on has the
  top bit set, which asks for one more byte.\<close>

definition delta_overruns :: "8 word list \<Rightarrow> nat \<Rightarrow> bool" where
  "delta_overruns track_data pos = list_all (\<lambda>b. b AND 0x80 \<noteq> 0) (drop pos track_data)"

text \<open>The error \<open>get_event\<close> is specified to raise, if any: an event is due and its code
  is not a defined one, or its payload does not fit in the data, or the event is not the
  end of stream, data follows it and the delta read there runs past the end.\<close>

definition parse_failure :: "music_stream \<Rightarrow> error option" where
  "parse_failure ms =
     (let track_data = m_track_data ms; pos = m_position ms
      in if \<not> have_event ms then None
         else
           case payload_size (track_data ! pos) of
             None \<Rightarrow> Some (Unsupported_event_code (track_data ! pos))
           | Some k \<Rightarrow>
               if pos + 1 + k > length track_data then Some Read_beyond_end
               else if track_data ! pos \<noteq> 0x22 \<and> pos + 1 + k < length track_data
                       \<and> delta_overruns track_data (pos + 1 + k)
               then Some Read_beyond_end
               else None)"

section \<open>Track player (track_player.h, track_player.cpp)\<close>

text \<open>The fields of the track player that decide whether it runs and repeats. The active
  channels are the list \<open>m_channels\<close>.\<close>

record track_player =
  m_play_count_tp :: "32 word"
  m_repeat_tp :: bool
  m_repeat_start :: nat
  m_stream :: music_stream
  m_channels :: "channel list"

text \<open>The constructor, from the fields of the track and the options it reads.\<close>

definition track_player_new ::
  "8 word list \<Rightarrow> 16 word \<Rightarrow> 16 word \<Rightarrow> bool \<Rightarrow> nat \<Rightarrow> 32 word \<Rightarrow> 32 word
     \<Rightarrow> error + track_player" where
  "track_player_new track_data ticks_per_beat beats_per_minute track_repeat track_repeat_start
       play_count sample_rate =
     (case music_stream_new track_data ticks_per_beat beats_per_minute (sample_rate * 60) of
        Inl e \<Rightarrow> Inl e
      | Inr ms \<Rightarrow>
          Inr \<lparr>m_play_count_tp = play_count, m_repeat_tp = track_repeat,
               m_repeat_start = track_repeat_start, m_stream = ms, m_channels = []\<rparr>)"

definition track_player_is_running :: "track_player \<Rightarrow> bool" where
  "track_player_is_running tp =
     (m_channels tp \<noteq> []
      \<or> (m_repeat_tp tp \<and> (m_play_count_tp tp = 0 \<or> m_play_count_tp tp > 1))
      \<or> stream_is_running (m_stream tp))"

definition failed_to_repeat :: "track_player \<Rightarrow> bool" where
  "failed_to_repeat tp = (m_play_count_tp tp > 1)"

text \<open>The case \<open>jump_to_marker\<close> of the event loop of \<open>next\<close>, the only place that changes
  the play count.\<close>

definition on_jump_to_marker :: "track_player \<Rightarrow> error + track_player" where
  "on_jump_to_marker tp =
     (if m_play_count_tp tp \<noteq> 1 then
        let tp = (if m_play_count_tp tp > 0
                  then tp\<lparr>m_play_count_tp := m_play_count_tp tp - 1\<rparr> else tp)
        in if m_repeat_tp tp then
             (case seek (m_stream tp) (m_repeat_start tp) of
                Inl e \<Rightarrow> Inl e
              | Inr ms \<Rightarrow> Inr (tp\<lparr>m_stream := ms\<rparr>))
           else Inr tp
      else Inr tp)"

section \<open>Verification: ADPCM decoder\<close>

lemma i8_id: "-128 \<le> x \<Longrightarrow> x < 128 \<Longrightarrow> i8 x = x"
  by (simp add: i8_def)

lemma i32_id: "-2147483648 \<le> x \<Longrightarrow> x < 2147483648 \<Longrightarrow> i32 x = x"
  by (simp add: i32_def)

lemma i16_id: "-32768 \<le> x \<Longrightarrow> x < 32768 \<Longrightarrow> i16 x = x"
  by (simp add: i16_def)

lemma i8_range: "-128 \<le> i8 x \<and> i8 x < 128"
  by (simp add: i8_def)

lemma div_pow_lower:
  fixes lo x :: int
  assumes "lo \<le> 0" "lo \<le> x"
  shows "lo \<le> x div 2 ^ k"
proof -
  have "lo * 2 ^ k \<le> lo * 1"
    using assms(1) by (intro mult_left_mono_neg) simp_all
  then have "lo * 2 ^ k \<le> x"
    using assms(2) by simp
  then have "(lo * 2 ^ k) div 2 ^ k \<le> x div 2 ^ k"
    by (intro zdiv_mono1) simp_all
  then show ?thesis by simp
qed

lemma div_pow_upper:
  fixes hi x :: int
  assumes "0 \<le> hi" "x \<le> hi"
  shows "x div 2 ^ k \<le> hi"
proof -
  have "hi * 1 \<le> hi * 2 ^ k"
    using assms(1) by (intro mult_left_mono) simp_all
  then have "x \<le> hi * 2 ^ k"
    using assms(2) by simp
  then have "x div 2 ^ k \<le> (hi * 2 ^ k) div 2 ^ k"
    by (intro zdiv_mono1) simp_all
  then show ?thesis by simp
qed

lemma filter_cases: "fltr < 5 \<Longrightarrow> fltr = 0 \<or> fltr = 1 \<or> fltr = 2 \<or> fltr = 3 \<or> fltr = (4::nat)"
  by arith

lemma sample_step:
  assumes f: "fltr < 5"
    and n: "-128 \<le> n" "n < 128"
    and s0: "-32768 \<le> s0" "s0 \<le> 32767"
    and s1: "-32768 \<le> s1" "s1 \<le> 32767"
  shows "i16 (clamp (add32 (sar32 (shl32 n 8) shift)
            (sar32 (add32 (add32 (mul32 s0 (m_pos_table ! fltr))
                                 (mul32 s1 (m_neg_table ! fltr))) 32) 6)) (-32768) 32767)
         = sample_formula fltr shift n s0 s1"
proof -
  define p where "p = m_pos_table ! fltr"
  define q where "q = m_neg_table ! fltr"
  have pq: "(p = 0 \<and> q = 0) \<or> (p = 60 \<and> q = 0) \<or> (p = 115 \<and> q = -52)
      \<or> (p = 98 \<and> q = -55) \<or> (p = 122 \<and> q = -60)"
    using filter_cases [OF f] by (auto simp: p_def q_def m_pos_table_def m_neg_table_def)
  have b1: "-3997696 \<le> s0 * p \<and> s0 * p \<le> 3997696"
    using pq s0 by auto
  have b2: "-1966080 \<le> s1 * q \<and> s1 * q \<le> 1966080"
    using pq s1 by auto
  have m1: "mul32 s0 p = s0 * p"
    unfolding mul32_def using b1 by (intro i32_id) auto
  have m2: "mul32 s1 q = s1 * q"
    unfolding mul32_def using b2 by (intro i32_id) auto
  have a1: "add32 (s0 * p) (s1 * q) = s0 * p + s1 * q"
    unfolding add32_def using b1 b2 by (intro i32_id) auto
  have a2: "add32 (s0 * p + s1 * q) 32 = s0 * p + s1 * q + 32"
    unfolding add32_def using b1 b2 by (intro i32_id) auto
  define t where "t = (s0 * p + s1 * q + 32) div 64"
  have t: "-5963808 \<le> t \<and> t \<le> 5963808"
    unfolding t_def using b1 b2 div_pow_lower [of "-5963808" "s0 * p + s1 * q + 32" 6]
      div_pow_upper [of 5963808 "s0 * p + s1 * q + 32" 6] by simp
  have sh: "shl32 n 8 = n * 256"
    unfolding shl32_def using n by (simp add: i32_id)
  define u where "u = (n * 256) div 2 ^ shift"
  have u: "-32768 \<le> u \<and> u \<le> 32767"
    unfolding u_def using n div_pow_lower [of "-32768" "n * 256" shift]
      div_pow_upper [of 32767 "n * 256" shift] by simp
  have a3: "add32 u t = u + t"
    unfolding add32_def using u t by (intro i32_id) auto
  have c: "clamp (u + t) (-32768) 32767 = max (-32768) (min 32767 (u + t))"
    by (simp add: clamp_def)
  have "i16 (max (-32768) (min 32767 (u + t))) = max (-32768) (min 32767 (u + t))"
    by (intro i16_id) auto
  then show ?thesis
    unfolding sample_formula_def sar32_def
    by (simp add: m1 m2 a1 a2 sh a3 c flip: p_def q_def t_def u_def)
qed

lemma sample_formula_range:
  "-32768 \<le> sample_formula fltr shift n s0 s1 \<and> sample_formula fltr shift n s0 s1 \<le> 32767"
  by (simp add: sample_formula_def)

lemma decode_samples_formula:
  assumes "fltr < 5" "\<forall>n \<in> set ns. -128 \<le> n \<and> n < 128"
    "-32768 \<le> s0" "s0 \<le> 32767" "-32768 \<le> s1" "s1 \<le> 32767"
  shows "decode_samples fltr shift ns s0 s1 =
    (samples_formula fltr shift ns s0 s1,
     last (s0 # samples_formula fltr shift ns s0 s1),
     last (butlast (s1 # s0 # samples_formula fltr shift ns s0 s1)))"
  using assms
proof (induction ns arbitrary: s0 s1)
  case Nil
  then show ?case by simp
next
  case (Cons n ns)
  let ?s = "sample_formula fltr shift n s0 s1"
  have step: "i16 (clamp (add32 (sar32 (shl32 n 8) shift)
            (sar32 (add32 (add32 (mul32 s0 (m_pos_table ! fltr))
                                 (mul32 s1 (m_neg_table ! fltr))) 32) 6)) (-32768) 32767) = ?s"
    using Cons.prems by (intro sample_step) auto
  have ih: "decode_samples fltr shift ns ?s s0 =
    (samples_formula fltr shift ns ?s s0,
     last (?s # samples_formula fltr shift ns ?s s0),
     last (butlast (s0 # ?s # samples_formula fltr shift ns ?s s0)))"
    using Cons.prems sample_formula_range [of fltr shift n s0 s1]
    by (intro Cons.IH) auto
  show ?case
    by (simp add: step ih Let_def)
qed

lemma unpack_range: "\<forall>n \<in> set (unpack bytes). -128 \<le> n \<and> n < 128"
  by (induction bytes) (auto simp: unpack_def i8_def)

lemma unpack_length: "length (unpack bytes) = 2 * length bytes"
  by (induction bytes) (auto simp: unpack_def)

lemma samples_formula_length: "length (samples_formula fltr shift ns s0 s1) = length ns"
  by (induction ns arbitrary: s0 s1) (auto simp: Let_def)

lemma samples_formula_range:
  "\<forall>s \<in> set (samples_formula fltr shift ns s0 s1). -32768 \<le> s \<and> s \<le> 32767"
  by (induction ns arbitrary: s0 s1) (auto simp: Let_def sample_formula_def)

lemma byte_split: "(d AND 0xf0) + (d AND 0x0f) = (d :: 8 word)"
proof -
  have "(d AND 0xf0) AND (d AND 0x0f) = d AND (0xf0 AND 0x0f)"
    by (simp add: ac_simps)
  also have "\<dots> = 0" by simp
  finally have "(d AND 0xf0) + (d AND 0x0f) = (d AND 0xf0) OR (d AND 0x0f)"
    by (rule disjunctive_add_eq_or)
  also have "\<dots> = d AND (0xf0 OR 0x0f)"
    by (simp only: bit.conj_disj_distrib)
  also have "(0xf0 OR 0x0f :: 8 word) = -1" by simp
  also have "d AND -1 = d" by simp
  finally show ?thesis .
qed

lemma byte_low: "uint (d AND (0x0f::8 word)) = uint d mod 16"
proof -
  have "(15::int) = mask 4" by (simp add: mask_eq_exp_minus_1)
  then have "uint d AND 15 = take_bit 4 (uint d)" by (simp add: take_bit_eq_mask)
  then show ?thesis by (simp add: take_bit_eq_mod uint_and)
qed

lemma byte_high: "uint (d AND (0xf0::8 word)) = (uint d div 16) * 16"
proof -
  have le: "uint (d AND 0x0f) \<le> uint d"
    by (simp add: byte_low zmod_le_nonneg_dividend)
  have "d AND 0xf0 = d - (d AND 0x0f)"
    using byte_split [of d] by (simp add: eq_diff_eq)
  then have "uint (d AND 0xf0) = uint d - uint (d AND 0x0f)"
    using le by (simp add: uint_sub_if')
  then show ?thesis
    by (simp add: byte_low minus_mod_eq_div_mult)
qed

lemma uint_byte_div: "uint (d :: 8 word) div 16 < 16 \<and> 0 \<le> uint d div 16"
proof -
  have "uint d < 256" "0 \<le> uint d" using uint_bounded [of d] by simp_all
  then show ?thesis by arith
qed

lemma i8_nybble:
  assumes "0 \<le> m" "m < 16"
  shows "i8 (m * 16) = nybble_of m"
proof (cases "m \<ge> 8")
  case True
  have "(m * 16 + 128) mod 256 = (m * 16 + 128 - 256) mod 256"
    by (simp only: minus_mod_self2)
  also have "\<dots> = m * 16 + 128 - 256"
    using True assms by (intro mod_pos_pos_trivial) auto
  finally show ?thesis
    using True by (simp add: i8_def nybble_of_def)
next
  case False
  have "(m * 16 + 128) mod 256 = m * 16 + 128"
    using False assms by (intro mod_pos_pos_trivial) auto
  then show ?thesis
    using False by (simp add: i8_def nybble_of_def)
qed

lemma unpack_byte:
  "[i8 (i8 (uint (d AND 0x0f)) * 2 ^ 4), i8 (uint (d AND (0xf0 :: 8 word)))]
     = [nybble_of (uint d mod 16), nybble_of (uint d div 16)]"
proof -
  have lo: "0 \<le> uint d mod 16 \<and> uint d mod 16 < 16" by simp
  have 1: "i8 (uint d mod 16) = uint d mod 16"
    using lo by (intro i8_id) auto
  have 2: "i8 (uint d mod 16 * 16) = nybble_of (uint d mod 16)"
    using lo by (intro i8_nybble) auto
  have 3: "i8 (uint d div 16 * 16) = nybble_of (uint d div 16)"
    using uint_byte_div [of d] by (intro i8_nybble) auto
  show ?thesis
    by (simp add: byte_low byte_high 1 2 3)
qed

lemma unpack_nybbles: "unpack (take 14 (drop 2 block)) = block_nybbles block"
  unfolding unpack_def block_nybbles_def by (simp only: unpack_byte)

lemma byte_shift: "unat (drop_bit 4 (d::8 word)) = unat d div 16"
  by (simp add: unat_drop_bit_eq drop_bit_eq_div unat_div)

lemma byte_mask: "unat (d AND (0x0f::8 word)) = unat d mod 16"
proof -
  have "int (unat (d AND 0x0f)) = int (unat d mod 16)"
    using byte_low [of d] by (simp add: zmod_int)
  then show ?thesis by (simp only: of_nat_eq_iff)
qed

lemma pull_buffered:
  "m_buffer_next b + k \<le> 28 \<Longrightarrow>
   adpcm_pull k b =
     Inr (b\<lparr>m_buffer_next := m_buffer_next b + k\<rparr>,
          map (\<lambda>i. (real_of_int (m_buffer b ! i) / 32768, True))
            [m_buffer_next b ..< m_buffer_next b + k])"
proof (induction k arbitrary: b)
  case 0
  then show ?case by simp
next
  case (Suc k)
  let ?b = "b\<lparr>m_buffer_next := Suc (m_buffer_next b)\<rparr>"
  have ne: "\<not> is_buffer_empty b"
    using Suc.prems by (simp add: is_buffer_empty_def PSXDMH_ADPCM_SAMPLES_PER_BLOCK_def)
  have nx: "adpcm_next b = Inr (?b, real_of_int (m_buffer b ! m_buffer_next b) / 32768, True)"
    using ne by (simp add: adpcm_next_def)
  have ih: "adpcm_pull k ?b =
     Inr (b\<lparr>m_buffer_next := Suc (m_buffer_next b + k)\<rparr>,
          map (\<lambda>i. (real_of_int (m_buffer b ! i) / 32768, True))
            [Suc (m_buffer_next b) ..< Suc (m_buffer_next b + k)])"
    using Suc.prems Suc.IH [of ?b] by simp
  have up: "[m_buffer_next b ..< m_buffer_next b + Suc k]
      = m_buffer_next b # [Suc (m_buffer_next b) ..< Suc (m_buffer_next b + k)]"
    by (simp add: upt_conv_Cons)
  show ?case
    unfolding up by (simp add: nx ih)
qed

lemma length_pairs: "length (concat (map (\<lambda>d. [f d, g d]) xs)) = 2 * length xs"
  by (induction xs) simp_all

lemma block_nybbles_length:
  "16 \<le> length block \<Longrightarrow> length (block_nybbles block) = 28"
  by (simp add: block_nybbles_def length_pairs)

lemma block_nybbles_range: "\<forall>n \<in> set (block_nybbles block). -128 \<le> n \<and> n < 128"
  using unpack_range [of "take 14 (drop 2 block)"] by (simp only: unpack_nybbles)

lemma block_samples_length:
  assumes "block_ready a"
  shows "length (block_samples a) = 28"
proof -
  have "16 \<le> length (current_block a)"
    using assms by (auto simp: block_ready_def current_block_def)
  then show ?thesis
    by (simp add: block_samples_def Let_def samples_formula_length block_nybbles_length)
qed

lemma block_samples_range:
  "\<forall>s \<in> set (block_samples a). -32768 \<le> s \<and> s \<le> 32767"
  unfolding block_samples_def Let_def by (rule samples_formula_range)

lemma last_28:
  assumes "length xs = 28"
  shows "last (x # xs) = xs ! 27"
proof -
  have ne: "xs \<noteq> []" using assms by auto
  then have "last (x # xs) = last xs" by simp
  also have "\<dots> = xs ! (length xs - 1)" using ne by (rule last_conv_nth)
  finally show ?thesis using assms by simp
qed

lemma last_butlast_28:
  assumes "length xs = 28"
  shows "last (butlast (y # x # xs)) = xs ! 26"
proof -
  have ne: "xs \<noteq> []" using assms by auto
  have ne': "butlast xs \<noteq> []" using assms by (auto simp: butlast_conv_take)
  have "last (butlast (y # x # xs)) = last (butlast xs)"
    using ne ne' by simp
  also have "\<dots> = butlast xs ! (length (butlast xs) - 1)"
    using ne' by (rule last_conv_nth)
  also have "\<dots> = xs ! 26"
    using assms by (simp add: nth_butlast)
  finally show ?thesis .
qed

lemma decode_block_bad_filter:
  "5 \<le> unat (current_block a ! 0) div 16 \<Longrightarrow> decode_block a = Inl Corrupt_ADPCM_block"
  by (simp add: decode_block_def Let_def byte_shift m_pos_table_def)

lemma decode_block_ok:
  assumes r: "block_ready a" and f: "unat (current_block a ! 0) div 16 < 5"
  shows "decode_block a =
    Inr (a\<lparr>m_repeat := (if is_repeat_start (current_block a) then m_current a else m_repeat a),
           m_buffer := block_samples a, m_buffer_next := 0,
           m_s0 := block_samples a ! 27, m_s1 := block_samples a ! 26\<rparr>)"
proof -
  let ?blk = "current_block a"
  let ?f = "unat (?blk ! 0) div 16"
  let ?sh = "unat (?blk ! 0) mod 16"
  have ds: "decode_samples ?f ?sh (block_nybbles ?blk) (m_s0 a) (m_s1 a) =
      (block_samples a, last (m_s0 a # block_samples a),
       last (butlast (m_s1 a # m_s0 a # block_samples a)))"
    unfolding block_samples_def Let_def
    using r f block_nybbles_range [of ?blk]
    by (intro decode_samples_formula) (auto simp: block_ready_def)
  have l: "length (block_samples a) = 28"
    using r by (rule block_samples_length)
  have ds': "decode_samples ?f ?sh (block_nybbles ?blk) (m_s0 a) (m_s1 a) =
      (block_samples a, block_samples a ! 27, block_samples a ! 26)"
    using ds by (simp only: last_28 [OF l] last_butlast_28 [OF l])
  show ?thesis
    using f
    by (simp add: decode_block_def Let_def byte_shift byte_mask m_pos_table_def
        PSXDMH_ADPCM_SAMPLES_PER_BLOCK_def unpack_nybbles ds')
qed

lemma next_block_fields:
  "m_buffer (next_block d) = m_buffer d" "m_buffer_next (next_block d) = m_buffer_next d"
  "m_data (next_block d) = m_data d" "m_s0 (next_block d) = m_s0 d"
  "m_s1 (next_block d) = m_s1 d" "m_repeat (next_block d) = m_repeat d"
  by (simp_all add: next_block_def Let_def)

lemma pull_28:
  "m_buffer_next b = 1 \<Longrightarrow> length (m_buffer b) = 28 \<Longrightarrow>
   adpcm_pull 27 b =
     Inr (b\<lparr>m_buffer_next := 28\<rparr>,
          map (\<lambda>s. (real_of_int s / 32768, True)) (tl (m_buffer b)))"
proof -
  assume n: "m_buffer_next b = 1" and l: "length (m_buffer b) = 28"
  have m: "map (\<lambda>i. (real_of_int (m_buffer b ! i) / 32768, True)) [Suc 0 ..< 28]
      = map (\<lambda>s. (real_of_int s / 32768, True)) (tl (m_buffer b))"
    using l by (intro nth_equalityI) (auto simp: nth_tl)
  show ?thesis
    using pull_buffered [of b 27] n by (simp add: m)
qed

lemma block_pull:
  assumes r: "block_ready a" and f: "unat (current_block a ! 0) div 16 < 5"
  shows "adpcm_pull 28 a =
    Inr ((next_block
           (a\<lparr>m_repeat := (if is_repeat_start (current_block a) then m_current a
                            else m_repeat a),
              m_buffer := block_samples a, m_buffer_next := 0,
              m_s0 := block_samples a ! 27, m_s1 := block_samples a ! 26\<rparr>))
           \<lparr>m_buffer_next := 28\<rparr>,
         map (\<lambda>s. (real_of_int s / 32768, True)) (block_samples a))"
    (is "_ = Inr (?n\<lparr>m_buffer_next := 28\<rparr>, _)")
proof -
  have l: "length (block_samples a) = 28"
    using r by (rule block_samples_length)
  have e: "is_buffer_empty a" "\<not> m_current a < 0"
    using r by (simp_all add: block_ready_def)
  have nx: "adpcm_next a = Inr (?n\<lparr>m_buffer_next := 1\<rparr>,
      real_of_int (block_samples a ! 0) / 32768, True)"
    using e by (simp add: adpcm_next_def decode_block_ok [OF r f] next_block_fields)
  have rest: "adpcm_pull 27 (?n\<lparr>m_buffer_next := 1\<rparr>) =
     Inr (?n\<lparr>m_buffer_next := 28\<rparr>,
          map (\<lambda>s. (real_of_int s / 32768, True)) (tl (block_samples a)))"
    using pull_28 [of "?n\<lparr>m_buffer_next := 1\<rparr>"] l by (simp add: next_block_fields)
  have hd: "block_samples a = block_samples a ! 0 # tl (block_samples a)"
    using l by (cases "block_samples a") simp_all
  have "adpcm_pull 28 a = adpcm_pull (Suc 27) a" by simp
  also have "\<dots> = Inr (?n\<lparr>m_buffer_next := 28\<rparr>,
      (real_of_int (block_samples a ! 0) / 32768, True)
        # map (\<lambda>s. (real_of_int s / 32768, True)) (tl (block_samples a)))"
    by (simp only: adpcm_pull.simps nx rest sum.case prod.case)
  also have "(real_of_int (block_samples a ! 0) / 32768, True)
        # map (\<lambda>s. (real_of_int s / 32768, True)) (tl (block_samples a))
      = map (\<lambda>s. (real_of_int s / 32768, True)) (block_samples a)"
    by (subst (3) hd) (simp only: list.map)
  finally show ?thesis .
qed

lemma pull_stopped:
  "is_buffer_empty a \<Longrightarrow> m_current a < 0 \<Longrightarrow>
   adpcm_pull n a = Inr (a, replicate n (0, False))"
  by (induction n) (simp_all add: adpcm_next_def)

lemma pull_add:
  "adpcm_pull (m + n) a =
     (case adpcm_pull m a of
        Inl e \<Rightarrow> Inl e
      | Inr (a', xs) \<Rightarrow>
          (case adpcm_pull n a' of
             Inl e \<Rightarrow> Inl e
           | Inr (a'', ys) \<Rightarrow> Inr (a'', xs @ ys)))"
  by (induction m arbitrary: a) (auto split: sum.splits prod.splits)

lemma block_step:
  assumes r: "block_ready a" and f: "unat (current_block a ! 0) div 16 < 5"
  defines "rp \<equiv> (if is_repeat_start (current_block a) then m_current a else m_repeat a)"
  shows "\<exists>a' out. adpcm_pull 28 a = Inr (a', out) \<and> length out = 28 \<and> (\<forall>x \<in> set out. snd x)
    \<and> m_data a' = m_data a \<and> is_buffer_empty a'
    \<and> -32768 \<le> m_s0 a' \<and> m_s0 a' \<le> 32767 \<and> -32768 \<le> m_s1 a' \<and> m_s1 a' \<le> 32767
    \<and> m_repeat a' = rp
    \<and> m_current a' =
        (if is_final (current_block a)
         then (if \<not> is_repeat_jump (current_block a) \<or> rp < 0 \<or> m_play_count a = 1
               then -1 else rp)
         else add32 (m_current a) 16)
    \<and> m_play_count a' =
        (if is_final (current_block a)
            \<and> \<not> (\<not> is_repeat_jump (current_block a) \<or> rp < 0 \<or> m_play_count a = 1)
         then decrement_play_count (m_play_count a) else m_play_count a)"
proof -
  let ?d = "a\<lparr>m_repeat := rp, m_buffer := block_samples a, m_buffer_next := 0,
              m_s0 := block_samples a ! 27, m_s1 := block_samples a ! 26\<rparr>"
  let ?a' = "(next_block ?d)\<lparr>m_buffer_next := 28\<rparr>"
  let ?out = "map (\<lambda>s. (real_of_int s / 32768, True)) (block_samples a)"
  have p: "adpcm_pull 28 a = Inr (?a', ?out)"
    unfolding rp_def by (rule block_pull [OF r f])
  have l: "length (block_samples a) = 28"
    using r by (rule block_samples_length)
  have m27: "block_samples a ! 27 \<in> set (block_samples a)"
    and m26: "block_samples a ! 26 \<in> set (block_samples a)"
    using l by simp_all
  have h: "-32768 \<le> block_samples a ! 27 \<and> block_samples a ! 27 \<le> 32767
      \<and> -32768 \<le> block_samples a ! 26 \<and> block_samples a ! 26 \<le> 32767"
    using block_samples_range [of a] m27 m26 by blast
  have cb: "current_block ?d = current_block a"
    by (simp add: current_block_def)
  have 1: "length ?out = 28 \<and> (\<forall>x \<in> set ?out. snd x)"
    using l by auto
  have 2: "m_data ?a' = m_data a \<and> is_buffer_empty ?a' \<and> m_repeat ?a' = rp
      \<and> m_s0 ?a' = block_samples a ! 27 \<and> m_s1 ?a' = block_samples a ! 26"
    by (simp add: next_block_fields is_buffer_empty_def PSXDMH_ADPCM_SAMPLES_PER_BLOCK_def)
  have 3: "m_current ?a' =
        (if is_final (current_block a)
         then (if \<not> is_repeat_jump (current_block a) \<or> rp < 0 \<or> m_play_count a = 1
               then -1 else rp)
         else add32 (m_current a) 16)"
    by (simp add: next_block_def Let_def cb PSXDMH_ADPCM_BLOCK_SIZE_def)
  have 4: "m_play_count ?a' =
        (if is_final (current_block a)
            \<and> \<not> (\<not> is_repeat_jump (current_block a) \<or> rp < 0 \<or> m_play_count a = 1)
         then decrement_play_count (m_play_count a) else m_play_count a)"
    by (simp add: next_block_def Let_def cb)
  show ?thesis
    using p 1 2 3 4 h by (intro exI [of _ ?a'] exI [of _ ?out]) simp
qed


lemma three_mask: "(3 :: 8 word) = mask 2"
  by (simp add: mask_eq_exp_minus_1)

lemma jump_bits: "(w AND 3 = (3::8 word)) = (bit w 0 \<and> bit w 1)"
proof -
  have "(w AND mask 2 = (mask 2 :: 8 word)) = (\<forall>n<2. bit w n)"
    by (auto simp: bit_eq_iff bit_and_iff bit_mask_iff)
      (metis One_nat_def Suc_lessI bit_1_0 less_2_cases not_bit_numeral_Bit0_0 zero_less_numeral)
  also have "\<dots> = (bit w 0 \<and> bit w 1)"
    by (auto simp: less_2_cases_iff)
  finally show ?thesis by (simp add: three_mask)
qed

lemma final_bit: "(w AND 1 = (1::8 word)) = bit w 0"
  by (simp add: bit_iff_and_drop_bit_eq_1)

lemma decrement_play_count_eq:
  "decrement_play_count c = (if c = 0 then 0 else c - 1)"
  by (simp add: decrement_play_count_def word_greater_zero_iff)

lemma final_block_pull:
  assumes r: "block_ready a" and f: "unat (current_block a ! 0) div 16 < 5"
    and fin: "is_final (current_block a)"
  defines "rp \<equiv> (if is_repeat_start (current_block a) then m_current a else m_repeat a)"
  shows "\<exists>a' out. adpcm_pull 28 a = Inr (a', out) \<and> length out = 28 \<and> (\<forall>x \<in> set out. snd x)
      \<and> (if is_repeat_jump (current_block a) \<and> 0 \<le> rp \<and> m_play_count a \<noteq> 1
          then m_current a' = rp \<and> is_buffer_empty a'
            \<and> m_play_count a' = (if m_play_count a = 0 then 0 else m_play_count a - 1)
          else \<forall>n. adpcm_pull n a' = Inr (a', replicate n (0, False)))"
proof -
  from block_step [OF r f] obtain a' out where
    p: "adpcm_pull 28 a = Inr (a', out)" "length out = 28" "\<forall>x \<in> set out. snd x"
    and e: "is_buffer_empty a'"
    and c: "m_current a' =
        (if \<not> is_repeat_jump (current_block a) \<or> rp < 0 \<or> m_play_count a = 1
         then -1 else rp)"
    and pc: "m_play_count a' =
        (if \<not> (\<not> is_repeat_jump (current_block a) \<or> rp < 0 \<or> m_play_count a = 1)
         then decrement_play_count (m_play_count a) else m_play_count a)"
    unfolding rp_def by (auto simp: fin)
  show ?thesis
  proof (cases "is_repeat_jump (current_block a) \<and> 0 \<le> rp \<and> m_play_count a \<noteq> 1")
    case True
    then show ?thesis
      using p e c pc by (auto simp: decrement_play_count_eq)
  next
    case False
    then have "m_current a' < 0"
      using c by auto
    then have "\<forall>n. adpcm_pull n a' = Inr (a', replicate n (0, False))"
      using e by (simp add: pull_stopped)
    then show ?thesis
      using p False by auto
  qed
qed

lemma two_block_loop:
  assumes len: "length A = 16" "length B = 16"
    and fA: "unat (A ! 0) div 16 < 5" and fB: "unat (B ! 0) div 16 < 5"
    and A: "is_repeat_start A" "\<not> is_final A"
    and B: "is_repeat_jump B" "\<not> is_repeat_start B"
  shows "\<exists>a' out. adpcm_pull (112 + n) (adpcm_new (A @ B) 2) = Inr (a', out @ replicate n (0, False))
           \<and> length out = 112 \<and> (\<forall>x \<in> set out. snd x)"
proof -
  let ?D = "A @ B"
  have finB: "is_final B"
    using B(1) by (simp add: is_repeat_jump_def is_final_def jump_bits final_bit)
  have blkA: "\<And>a. m_data a = ?D \<Longrightarrow> m_current a = 0 \<Longrightarrow> current_block a ! 0 = A ! 0
      \<and> is_repeat_start (current_block a) \<and> \<not> is_final (current_block a)"
    using len A by (simp add: current_block_def is_repeat_start_def is_final_def nth_append)
  have blkB: "\<And>a. m_data a = ?D \<Longrightarrow> m_current a = 16 \<Longrightarrow> current_block a = B"
    using len by (simp add: current_block_def)
  have ready: "\<And>a. m_data a = ?D \<Longrightarrow> m_current a = 0 \<or> m_current a = 16 \<Longrightarrow>
      is_buffer_empty a \<Longrightarrow> -32768 \<le> m_s0 a \<and> m_s0 a \<le> 32767
        \<and> -32768 \<le> m_s1 a \<and> m_s1 a \<le> 32767 \<Longrightarrow> block_ready a"
    using len by (auto simp: block_ready_def)
  have a16: "add32 0 16 = 16"
    by (simp add: add32_def i32_def)
  define a0 where "a0 = adpcm_new ?D 2"
  have r0: "block_ready a0" "m_data a0 = ?D" "m_current a0 = 0" "m_play_count a0 = 2"
    using len by (simp_all add: a0_def block_ready_def adpcm_new_def is_buffer_empty_def)
  from block_step [OF r0(1)] blkA [OF r0(2,3)] fA r0 obtain a1 o1 where
    s1: "adpcm_pull 28 a0 = Inr (a1, o1)" "length o1 = 28" "\<forall>x \<in> set o1. snd x"
    and d1: "m_data a1 = ?D" "is_buffer_empty a1" "m_repeat a1 = 0" "m_current a1 = 16"
      "m_play_count a1 = 2"
    and h1: "-32768 \<le> m_s0 a1 \<and> m_s0 a1 \<le> 32767 \<and> -32768 \<le> m_s1 a1 \<and> m_s1 a1 \<le> 32767"
    by (auto simp: a16)
  have r1: "block_ready a1"
    using d1 h1 by (intro ready) auto
  have b1: "current_block a1 = B"
    using d1 by (intro blkB) auto
  from block_step [OF r1] fB d1 B finB obtain a2 o2 where
    s2: "adpcm_pull 28 a1 = Inr (a2, o2)" "length o2 = 28" "\<forall>x \<in> set o2. snd x"
    and d2: "m_data a2 = ?D" "is_buffer_empty a2" "m_repeat a2 = 0" "m_current a2 = 0"
      "m_play_count a2 = 1"
    and h2: "-32768 \<le> m_s0 a2 \<and> m_s0 a2 \<le> 32767 \<and> -32768 \<le> m_s1 a2 \<and> m_s1 a2 \<le> 32767"
    by (auto simp: b1 decrement_play_count_eq)
  have r2: "block_ready a2"
    using d2 h2 by (intro ready) auto
  from block_step [OF r2] blkA [OF d2(1,4)] fA d2 obtain a3 o3 where
    s3: "adpcm_pull 28 a2 = Inr (a3, o3)" "length o3 = 28" "\<forall>x \<in> set o3. snd x"
    and d3: "m_data a3 = ?D" "is_buffer_empty a3" "m_repeat a3 = 0" "m_current a3 = 16"
      "m_play_count a3 = 1"
    and h3: "-32768 \<le> m_s0 a3 \<and> m_s0 a3 \<le> 32767 \<and> -32768 \<le> m_s1 a3 \<and> m_s1 a3 \<le> 32767"
    by (auto simp: a16)
  have r3: "block_ready a3"
    using d3 h3 by (intro ready) auto
  have b3: "current_block a3 = B"
    using d3 by (intro blkB) auto
  from block_step [OF r3] fB d3 B finB obtain a4 o4 where
    s4: "adpcm_pull 28 a3 = Inr (a4, o4)" "length o4 = 28" "\<forall>x \<in> set o4. snd x"
    and d4: "is_buffer_empty a4" "m_current a4 = -1"
    by (auto simp: b3)
  have s5: "adpcm_pull n a4 = Inr (a4, replicate n (0, False))"
    using d4 by (intro pull_stopped) auto
  have "adpcm_pull (28 + (28 + (28 + (28 + n)))) a0
      = Inr (a4, o1 @ o2 @ o3 @ o4 @ replicate n (0, False))"
    by (simp only: pull_add s1 s2 s3 s4 s5 sum.case prod.case)
  then have "adpcm_pull (112 + n) (adpcm_new ?D 2)
      = Inr (a4, (o1 @ o2 @ o3 @ o4) @ replicate n (0, False))"
    by (simp add: a0_def)
  moreover have "length (o1 @ o2 @ o3 @ o4) = 112 \<and> (\<forall>x \<in> set (o1 @ o2 @ o3 @ o4). snd x)"
    using s1 s2 s3 s4 by auto
  ultimately show ?thesis by blast
qed

text \<open>
  Claim C1. A decoder about to decode a block fails with the corrupt-block error when
  the filter index of the block is 5 or more. Otherwise its next 28 calls of \<open>next\<close>
  return the 28 samples of \<open>block_samples\<close>, each divided by 32768: sample by sample,
  \<open>s = ((nybble << 8) >> shift) + ((s0 * pos[filter] + s1 * neg[filter] + 32) >> 6)\<close>
  clamped to the 16-bit range, with \<open>s1 := s0\<close> and \<open>s0 := s\<close> after each sample; none
  of the 32-bit operations of the source wraps. The two previous samples left in the
  decoder are the last two of the block.
\<close>

theorem adpcm_block_decoding:
  assumes "block_ready a"
  shows "if 5 \<le> unat (current_block a ! 0) div 16
         then adpcm_next a = Inl Corrupt_ADPCM_block
         else (\<exists>a'. adpcm_pull 28 a =
                    Inr (a', map (\<lambda>s. (real_of_int s / 32768, True)) (block_samples a))
                \<and> m_s0 a' = block_samples a ! 27 \<and> m_s1 a' = block_samples a ! 26)
              \<and> length (block_samples a) = 28
              \<and> (\<forall>s \<in> set (block_samples a). -32768 \<le> s \<and> s \<le> 32767)"
proof (cases "5 \<le> unat (current_block a ! 0) div 16")
  case True
  have "is_buffer_empty a" "\<not> m_current a < 0"
    using assms by (simp_all add: block_ready_def)
  then have "adpcm_next a = Inl Corrupt_ADPCM_block"
    by (simp add: adpcm_next_def decode_block_bad_filter [OF True])
  with True show ?thesis by simp
next
  case False
  then have f: "unat (current_block a ! 0) div 16 < 5" by simp
  have "m_s0 ((next_block
           (a\<lparr>m_repeat := (if is_repeat_start (current_block a) then m_current a
                            else m_repeat a),
              m_buffer := block_samples a, m_buffer_next := 0,
              m_s0 := block_samples a ! 27, m_s1 := block_samples a ! 26\<rparr>))
           \<lparr>m_buffer_next := 28\<rparr>) = block_samples a ! 27"
    and "m_s1 ((next_block
           (a\<lparr>m_repeat := (if is_repeat_start (current_block a) then m_current a
                            else m_repeat a),
              m_buffer := block_samples a, m_buffer_next := 0,
              m_s0 := block_samples a ! 27, m_s1 := block_samples a ! 26\<rparr>))
           \<lparr>m_buffer_next := 28\<rparr>) = block_samples a ! 26"
    by (simp_all add: next_block_fields)
  with block_pull [OF assms f] have
    "\<exists>a'. adpcm_pull 28 a =
            Inr (a', map (\<lambda>s. (real_of_int s / 32768, True)) (block_samples a))
        \<and> m_s0 a' = block_samples a ! 27 \<and> m_s1 a' = block_samples a ! 26"
    by blast
  with False block_samples_length [OF assms] block_samples_range [of a]
  show ?thesis by simp
qed

theorem adpcm_block_decoding_witness:
  "block_ready (adpcm_new [0x12, 0x01, 0x17, 0, 0, 0, 0, 0, 0, 0, 0, 0, 0, 0, 0, 0xf1] 1)
   \<and> (\<exists>a'. adpcm_pull 28
         (adpcm_new [0x12, 0x01, 0x17, 0, 0, 0, 0, 0, 0, 0, 0, 0, 0, 0, 0, 0xf1] 1) =
           Inr (a', map (\<lambda>s. (real_of_int s / 32768, True))
             (block_samples
               (adpcm_new [0x12, 0x01, 0x17, 0, 0, 0, 0, 0, 0, 0, 0, 0, 0, 0, 0, 0xf1] 1))))
   \<and> block_samples
         (adpcm_new [0x12, 0x01, 0x17, 0, 0, 0, 0, 0, 0, 0, 0, 0, 0, 0, 0, 0xf1] 1)
       = [7168, 7744, 7260, 6806, 6381, 5982, 5608, 5258, 4929, 4621, 4332, 4061,
          3807, 3569, 3346, 3137, 2941, 2757, 2585, 2423, 2272, 2130, 1997, 1872,
          1755, 1645, 2566, 1382]"
proof -
  let ?a = "adpcm_new [0x12, 0x01, 0x17, 0, 0, 0, 0, 0, 0, 0, 0, 0, 0, 0, 0, 0xf1] 1"
  have r: "block_ready ?a"
    by (simp add: block_ready_def adpcm_new_def is_buffer_empty_def
        PSXDMH_ADPCM_SAMPLES_PER_BLOCK_def)
  have f: "\<not> 5 \<le> unat (current_block ?a ! 0) div 16"
    by (simp add: adpcm_new_def current_block_def)
  have t: "block_samples ?a
       = [7168, 7744, 7260, 6806, 6381, 5982, 5608, 5258, 4929, 4621, 4332, 4061,
          3807, 3569, 3346, 3137, 2941, 2757, 2585, 2423, 2272, 2130, 1997, 1872,
          1755, 1645, 2566, 1382]"
    by code_simp
  from adpcm_block_decoding [OF r] f have "\<exists>a'. adpcm_pull 28 ?a =
           Inr (a', map (\<lambda>s. (real_of_int s / 32768, True)) (block_samples ?a))
                \<and> m_s0 a' = block_samples ?a ! 27 \<and> m_s1 a' = block_samples ?a ! 26"
    by (simp only: if_False)
  then have e: "\<exists>a'. adpcm_pull 28 ?a =
           Inr (a', map (\<lambda>s. (real_of_int s / 32768, True)) (block_samples ?a))"
    by (elim exE conjE) (rule exI)
  show ?thesis
    by (intro conjI r e t)
qed

text \<open>
  Claim C2. A decoder about to decode a final block emits the 28 samples of the block.
  If the block also has the repeat-jump flag, a repeat point is stored (by this block or
  an earlier one) and the play count is not 1, the decoder is then at the repeat point
  with the play count decremented unless it is 0; otherwise every later call of \<open>next\<close>
  returns 0 and false. A stream of two blocks, the first a repeat start that is not
  final and the last a repeat jump that is not a repeat start, played with a play count
  of 2, yields exactly 112 samples and then stops.
\<close>

theorem adpcm_final_block_repeats_or_stops:
  "(block_ready a \<and> unat (current_block a ! 0) div 16 < 5 \<and> is_final (current_block a)
      \<longrightarrow> (\<exists>a' out. adpcm_pull 28 a = Inr (a', out) \<and> length out = 28
             \<and> (\<forall>x \<in> set out. snd x)
             \<and> (if is_repeat_jump (current_block a)
                    \<and> 0 \<le> (if is_repeat_start (current_block a) then m_current a
                             else m_repeat a)
                    \<and> m_play_count a \<noteq> 1
                 then m_current a' = (if is_repeat_start (current_block a) then m_current a
                                      else m_repeat a)
                   \<and> is_buffer_empty a'
                   \<and> m_play_count a' = (if m_play_count a = 0 then 0 else m_play_count a - 1)
                 else \<forall>n. adpcm_pull n a' = Inr (a', replicate n (0, False)))))
   \<and> (length A = 16 \<and> length B = 16 \<and> unat (A ! 0) div 16 < 5 \<and> unat (B ! 0) div 16 < 5
        \<and> is_repeat_start A \<and> \<not> is_final A \<and> is_repeat_jump B \<and> \<not> is_repeat_start B
      \<longrightarrow> (\<exists>a' out. adpcm_pull (112 + n) (adpcm_new (A @ B) 2)
                        = Inr (a', out @ replicate n (0, False))
             \<and> length out = 112 \<and> (\<forall>x \<in> set out. snd x)))"
  using final_block_pull [of a] two_block_loop [of A B n] by blast

theorem adpcm_final_block_repeats_or_stops_witness:
  "(block_ready (adpcm_new [0x00, 0x03, 0x17, 0, 0, 0, 0, 0, 0, 0, 0, 0, 0, 0, 0, 0xf1] 2)
    \<and> is_final (current_block
         (adpcm_new [0x00, 0x03, 0x17, 0, 0, 0, 0, 0, 0, 0, 0, 0, 0, 0, 0, 0xf1] 2))
    \<and> (\<exists>a' out. adpcm_pull 28
           (adpcm_new [0x00, 0x03, 0x17, 0, 0, 0, 0, 0, 0, 0, 0, 0, 0, 0, 0, 0xf1] 2)
             = Inr (a', out)
          \<and> length out = 28 \<and> (\<forall>x \<in> set out. snd x)
          \<and> (\<forall>n. adpcm_pull n a' = Inr (a', replicate n (0, False)))))
   \<and> (is_repeat_start [0x00, 0x04, 0x17, 0, 0, 0, 0, 0, 0, 0, 0, 0, 0, 0, 0, 0xf1 :: 8 word]
    \<and> is_repeat_jump [0x00, 0x03, 0x17, 0, 0, 0, 0, 0, 0, 0, 0, 0, 0, 0, 0, 0xf1 :: 8 word]
    \<and> (\<exists>a' out. adpcm_pull (112 + 5)
           (adpcm_new ([0x00, 0x04, 0x17, 0, 0, 0, 0, 0, 0, 0, 0, 0, 0, 0, 0, 0xf1]
                       @ [0x00, 0x03, 0x17, 0, 0, 0, 0, 0, 0, 0, 0, 0, 0, 0, 0, 0xf1]) 2)
             = Inr (a', out @ replicate 5 (0, False))
          \<and> length out = 112 \<and> (\<forall>x \<in> set out. snd x)))"
  using adpcm_final_block_repeats_or_stops
    [of "adpcm_new [0x00, 0x03, 0x17, 0, 0, 0, 0, 0, 0, 0, 0, 0, 0, 0, 0, 0xf1] 2"
        "[0x00, 0x04, 0x17, 0, 0, 0, 0, 0, 0, 0, 0, 0, 0, 0, 0, 0xf1]"
        "[0x00, 0x03, 0x17, 0, 0, 0, 0, 0, 0, 0, 0, 0, 0, 0, 0, 0xf1]" 5]
  by (simp add: block_ready_def adpcm_new_def is_buffer_empty_def current_block_def
      PSXDMH_ADPCM_SAMPLES_PER_BLOCK_def is_final_def is_repeat_jump_def is_repeat_start_def)

text \<open>
  Claim C10. \<open>is_repeat_jump\<close> holds exactly when bit 0 (final) and bit 1 (repeat jump)
  of the flag byte are both set. A block with bit 1 set and bit 0 clear is neither final
  nor a repeat jump, and the decoder, after the 28 samples of that block, is at the
  following block with its play count unchanged.
\<close>

theorem repeat_jump_needs_final:
  "(is_repeat_jump block \<longleftrightarrow> bit (block ! 1) 0 \<and> bit (block ! 1) 1)
   \<and> (bit (block ! 1) 1 \<and> \<not> bit (block ! 1) 0
        \<longrightarrow> \<not> is_final block \<and> \<not> is_repeat_jump block)
   \<and> (bit (current_block a ! 1) 1 \<and> \<not> bit (current_block a ! 1) 0
        \<and> block_ready a \<and> unat (current_block a ! 0) div 16 < 5
        \<longrightarrow> (\<exists>a' out. adpcm_pull 28 a = Inr (a', out) \<and> length out = 28
               \<and> (\<forall>x \<in> set out. snd x)
               \<and> m_current a' = add32 (m_current a) 16
               \<and> m_play_count a' = m_play_count a))"
proof -
  have p1: "is_repeat_jump block \<longleftrightarrow> bit (block ! 1) 0 \<and> bit (block ! 1) 1"
    by (simp add: is_repeat_jump_def jump_bits)
  have p2: "\<not> is_final block \<and> \<not> is_repeat_jump block"
    if "bit (block ! 1) 1 \<and> \<not> bit (block ! 1) 0"
    using that by (simp add: is_repeat_jump_def is_final_def jump_bits final_bit)
  have p3: "\<exists>a' out. adpcm_pull 28 a = Inr (a', out) \<and> length out = 28
               \<and> (\<forall>x \<in> set out. snd x)
               \<and> m_current a' = add32 (m_current a) 16
               \<and> m_play_count a' = m_play_count a"
    if h: "bit (current_block a ! 1) 1 \<and> \<not> bit (current_block a ! 1) 0
        \<and> block_ready a \<and> unat (current_block a ! 0) div 16 < 5"
  proof -
    have nf: "\<not> is_final (current_block a)"
      using h by (simp add: is_final_def final_bit)
    from h block_step [of a] obtain a' out where
      "adpcm_pull 28 a = Inr (a', out)" "length out = 28" "\<forall>x \<in> set out. snd x"
      "m_current a' = add32 (m_current a) 16" "m_play_count a' = m_play_count a"
      by (auto simp: nf)
    then show ?thesis by blast
  qed
  show ?thesis
    using p1 p2 p3 by blast
qed

theorem repeat_jump_needs_final_witness:
  "bit (0x02 :: 8 word) 1 \<and> \<not> bit (0x02 :: 8 word) 0
   \<and> block_ready (adpcm_new
        [0x00, 0x02, 0x17, 0, 0, 0, 0, 0, 0, 0, 0, 0, 0, 0, 0, 0xf1,
         0x00, 0x01, 0x17, 0, 0, 0, 0, 0, 0, 0, 0, 0, 0, 0, 0, 0xf1] 1)
   \<and> \<not> is_final [0x00, 0x02 :: 8 word] \<and> \<not> is_repeat_jump [0x00, 0x02 :: 8 word]
   \<and> (\<exists>a' out. adpcm_pull 28 (adpcm_new
        [0x00, 0x02, 0x17, 0, 0, 0, 0, 0, 0, 0, 0, 0, 0, 0, 0, 0xf1,
         0x00, 0x01, 0x17, 0, 0, 0, 0, 0, 0, 0, 0, 0, 0, 0, 0, 0xf1] 1) = Inr (a', out)
        \<and> length out = 28 \<and> m_current a' = 16 \<and> m_play_count a' = 1)"
proof -
  let ?a = "adpcm_new
        [0x00, 0x02, 0x17, 0, 0, 0, 0, 0, 0, 0, 0, 0, 0, 0, 0, 0xf1,
         0x00, 0x01, 0x17, 0, 0, 0, 0, 0, 0, 0, 0, 0, 0, 0, 0, 0xf1] 1"
  have b: "bit (0x02 :: 8 word) 1 \<and> \<not> bit (0x02 :: 8 word) 0"
    by (simp add: bit_numeral_word_iff)
  have r: "block_ready ?a"
    by (simp add: block_ready_def adpcm_new_def is_buffer_empty_def
        PSXDMH_ADPCM_SAMPLES_PER_BLOCK_def)
  have c: "current_block ?a ! Suc 0 = 0x02" "current_block ?a ! 0 = 0" "m_current ?a = 0"
    "m_play_count ?a = 1"
    by (simp_all add: adpcm_new_def current_block_def)
  have a16: "add32 0 16 = 16"
    by (simp add: add32_def i32_def)
  note T = repeat_jump_needs_final [of "[0x00, 0x02]" ?a]
  have h2: "bit ([0x00, 0x02 :: 8 word] ! 1) 1 \<and> \<not> bit ([0x00, 0x02 :: 8 word] ! 1) 0"
    using b by simp
  have h3: "bit (current_block ?a ! 1) 1 \<and> \<not> bit (current_block ?a ! 1) 0
      \<and> block_ready ?a \<and> unat (current_block ?a ! 0) div 16 < 5"
    using b r by (simp add: c)
  from T h2 have c2: "\<not> is_final [0x00, 0x02 :: 8 word] \<and> \<not> is_repeat_jump [0x00, 0x02 :: 8 word]"
    by blast
  from T h3 have "\<exists>a' out. adpcm_pull 28 ?a = Inr (a', out) \<and> length out = 28
      \<and> (\<forall>x \<in> set out. snd x)
      \<and> m_current a' = add32 (m_current ?a) 16 \<and> m_play_count a' = m_play_count ?a"
    by blast
  then have c3: "\<exists>a' out. adpcm_pull 28 ?a = Inr (a', out) \<and> length out = 28
      \<and> m_current a' = 16 \<and> m_play_count a' = 1"
    by (auto simp: c a16)
  show ?thesis
    by (intro conjI b [THEN conjunct1] b [THEN conjunct2] r c2 [THEN conjunct1]
        c2 [THEN conjunct2] c3)
qed

section \<open>Verification: envelope\<close>

lemma calculate_cycle_fields:
  "m_volume (calculate_cycle e) = m_volume e"
  "m_phase (calculate_cycle e) = m_phase e"
  "m_config (calculate_cycle e) = m_config e"
  by (simp_all add: calculate_cycle_def Let_def split: prod.splits)

lemma clamp_range: "lo \<le> hi \<Longrightarrow> lo \<le> clamp x lo hi \<and> clamp x lo hi \<le> hi"
  by (simp add: clamp_def)

lemma envelope_next_volume:
  "0 \<le> m_volume e \<and> m_volume e \<le> 0x7fff \<Longrightarrow>
   0 \<le> m_volume (fst (envelope_next e)) \<and> m_volume (fst (envelope_next e)) \<le> 0x7fff"
  using clamp_range [of 0 "0x7fff" "add32 (m_volume e) (m_cycle_step e)"]
  by (simp add: envelope_next_def Let_def calculate_cycle_fields)

lemma envelope_next_config: "m_config (fst (envelope_next e)) = m_config e"
  by (simp add: envelope_next_def Let_def calculate_cycle_fields)

lemma release_fields:
  "m_volume (release e) = m_volume e" "m_config (release e) = m_config e"
  by (simp_all add: release_def calculate_cycle_fields)

lemma envelope_call_volume:
  "0 \<le> m_volume e \<and> m_volume e \<le> 0x7fff \<Longrightarrow>
   0 \<le> m_volume (envelope_call e c) \<and> m_volume (envelope_call e c) \<le> 0x7fff"
  by (cases c) (simp_all add: envelope_next_volume release_fields)

lemma envelope_calls_volume:
  "0 \<le> m_volume e \<and> m_volume e \<le> 0x7fff \<Longrightarrow>
   0 \<le> m_volume (envelope_calls e cs) \<and> m_volume (envelope_calls e cs) \<le> 0x7fff"
  unfolding envelope_calls_def
  by (induction cs arbitrary: e) (simp_all add: envelope_call_volume)

lemma envelope_calls_config: "m_config (envelope_calls e cs) = m_config e"
  unfolding envelope_calls_def
proof (induction cs arbitrary: e)
  case Nil
  show ?case by simp
next
  case (Cons c cs)
  have "m_config (envelope_call e c) = m_config e"
    by (cases c) (simp_all add: envelope_next_config release_fields)
  then show ?case by (simp add: Cons.IH)
qed

lemma envelope_next_sample:
  "fst (snd (envelope_next e)) = real_of_int (m_volume e) / 32767"
  by (simp add: envelope_next_def Let_def)

lemma reach_sustain:
  "m_phase (envelope_calls (envelope_new 0 0) (replicate 8 Next)) = ep_sustain"
  by code_simp

lemma reach_volume:
  "m_volume (envelope_calls (envelope_new 0 0) (replicate 5 Next)) = 16383"
  by code_simp

text \<open>
  Claim C3. Whatever the two registers and whatever calls of \<open>next\<close> and \<open>release\<close> were
  made, the volume of the envelope is between 0 and \<open>0x7FFF\<close>, and the sample that the
  following call of \<open>next\<close> emits is between 0 and 1.
\<close>

theorem envelope_volume_clamped:
  "0 \<le> m_volume (envelope_calls (envelope_new spu_ads spu_sr) cs)
   \<and> m_volume (envelope_calls (envelope_new spu_ads spu_sr) cs) \<le> 0x7fff
   \<and> 0 \<le> fst (snd (envelope_next (envelope_calls (envelope_new spu_ads spu_sr) cs)))
   \<and> fst (snd (envelope_next (envelope_calls (envelope_new spu_ads spu_sr) cs))) \<le> 1"
proof -
  have "0 \<le> m_volume (envelope_new spu_ads spu_sr) \<and> m_volume (envelope_new spu_ads spu_sr) \<le> 0x7fff"
    by (simp add: envelope_new_def Let_def)
  then have v: "0 \<le> m_volume (envelope_calls (envelope_new spu_ads spu_sr) cs)
      \<and> m_volume (envelope_calls (envelope_new spu_ads spu_sr) cs) \<le> 0x7fff"
    by (rule envelope_calls_volume)
  then show ?thesis
    by (simp add: envelope_next_sample)
qed

theorem envelope_volume_clamped_witness:
  "m_volume (envelope_calls (envelope_new 0 0) (replicate 5 Next)) = 16383
   \<and> 0 \<le> fst (snd (envelope_next (envelope_calls (envelope_new 0 0) (replicate 5 Next))))
   \<and> fst (snd (envelope_next (envelope_calls (envelope_new 0 0) (replicate 5 Next)))) \<le> 1"
  using envelope_volume_clamped [of 0 0 "replicate 5 Next"] reach_volume by simp

lemma sustain_target:
  "let cfg = m_config (envelope_new spu_ads spu_sr) ! 2
   in (cfg_direction cfg = direction_increase \<and> cfg_target cfg = 0x8000)
      \<or> (cfg_direction cfg = direction_decrease \<and> cfg_target cfg = -1)"
  by (simp add: envelope_new_def Let_def)

lemma envelope_next_sustain:
  assumes "m_phase e = ep_sustain"
    and "(cfg_direction (m_config e ! 2) = direction_increase \<and> cfg_target (m_config e ! 2) = 0x8000)
      \<or> (cfg_direction (m_config e ! 2) = direction_decrease \<and> cfg_target (m_config e ! 2) = -1)"
  shows "m_phase (fst (envelope_next e)) = ep_sustain"
  using assms clamp_range [of 0 "0x7fff" "add32 (m_volume e) (m_cycle_step e)"]
  by (auto simp: envelope_next_def Let_def calculate_cycle_fields)


lemma nexts_sustain:
  assumes "m_phase e = ep_sustain"
    and "(cfg_direction (m_config e ! 2) = direction_increase \<and> cfg_target (m_config e ! 2) = 0x8000)
      \<or> (cfg_direction (m_config e ! 2) = direction_decrease \<and> cfg_target (m_config e ! 2) = -1)"
  shows "m_phase (envelope_calls e (replicate n Next)) = ep_sustain"
  using assms
proof (induction n arbitrary: e)
  case 0
  then show ?case by (simp add: envelope_calls_def)
next
  case (Suc n)
  let ?e = "fst (envelope_next e)"
  have "m_phase ?e = ep_sustain"
    using Suc.prems by (rule envelope_next_sustain)
  moreover have "m_config ?e = m_config e"
    by (rule envelope_next_config)
  ultimately have "m_phase (envelope_calls ?e (replicate n Next)) = ep_sustain"
    using Suc.prems(2) by (intro Suc.IH) simp_all
  then show ?case
    by (simp add: envelope_calls_def)
qed

lemma envelope_calls_append:
  "envelope_calls e (cs @ ds) = envelope_calls (envelope_calls e cs) ds"
  by (simp add: envelope_calls_def)

text \<open>
  Claim C4. An envelope that is in the sustain phase stays in it through any number of
  calls of \<open>next\<close>: the target of the phase, \<open>0x8000\<close> or \<open>-1\<close>, is outside the range the
  volume is clamped to. A call of \<open>release\<close> then starts the release phase.
\<close>

theorem sustain_left_only_by_release:
  "m_phase (envelope_calls (envelope_new spu_ads spu_sr) cs) = ep_sustain \<longrightarrow>
     m_phase (envelope_calls (envelope_new spu_ads spu_sr) (cs @ replicate n Next)) = ep_sustain
     \<and> m_phase (envelope_calls (envelope_new spu_ads spu_sr) (cs @ replicate n Next @ [Release]))
         = ep_release"
proof
  let ?e = "envelope_calls (envelope_new spu_ads spu_sr) cs"
  assume s: "m_phase ?e = ep_sustain"
  have "m_config ?e = m_config (envelope_new spu_ads spu_sr)"
    by (rule envelope_calls_config)
  then have t: "(cfg_direction (m_config ?e ! 2) = direction_increase
        \<and> cfg_target (m_config ?e ! 2) = 0x8000)
      \<or> (cfg_direction (m_config ?e ! 2) = direction_decrease
        \<and> cfg_target (m_config ?e ! 2) = -1)"
    using sustain_target [of spu_ads spu_sr] by (simp add: Let_def)
  have n: "m_phase (envelope_calls ?e (replicate n Next)) = ep_sustain"
    using s t by (rule nexts_sustain)
  then have "m_phase (release (envelope_calls ?e (replicate n Next))) = ep_release"
    by (simp add: release_def calculate_cycle_fields)
  then have r: "m_phase (envelope_calls (envelope_calls ?e (replicate n Next)) [Release]) = ep_release"
    by (simp add: envelope_calls_def)
  show "m_phase (envelope_calls (envelope_new spu_ads spu_sr) (cs @ replicate n Next)) = ep_sustain
     \<and> m_phase (envelope_calls (envelope_new spu_ads spu_sr) (cs @ replicate n Next @ [Release]))
         = ep_release"
    using n r by (simp only: envelope_calls_append) 
qed

theorem sustain_left_only_by_release_witness:
  "m_phase (envelope_calls (envelope_new 0 0) (replicate 8 Next)) = ep_sustain
   \<and> m_phase (envelope_calls (envelope_new 0 0) (replicate 8 Next @ replicate 5 Next))
       = ep_sustain
   \<and> m_phase (envelope_calls (envelope_new 0 0) (replicate 8 Next @ replicate 5 Next @ [Release]))
       = ep_release"
  by (intro conjI reach_sustain
      sustain_left_only_by_release [of 0 0 "replicate 8 Next" 5, THEN mp, OF reach_sustain,
        THEN conjunct1]
      sustain_left_only_by_release [of 0 0 "replicate 8 Next" 5, THEN mp, OF reach_sustain,
        THEN conjunct2])

section \<open>Verification: channel\<close>

text \<open>
  Claim C7. A running channel with master volume \<open>m\<close> and pan \<open>p\<close> emits the product of the
  resampled waveform sample and the envelope sample, scaled on the left by
  \<open>m * (128 - p) / 128\<close> and on the right by \<open>m * (p + 1) / 128\<close>, every product and quotient
  being a float operation (rounded by \<open>rnd\<close>), and keeps running while both modules are
  live. The two volumes are those of the linear pan law; no cosine or sine is taken.
\<close>

theorem channel_linear_pan:
  "channel_next rnd (channel_new rnd m pan) (w, resampler_live) (e, envelope_live) =
     ((channel_new rnd m pan)\<lparr>m_running := (resampler_live \<and> envelope_live)\<rparr>,
      (rnd (rnd (rnd (m * (128 - real (unat pan))) / 128) * rnd (w * e)),
       rnd (rnd (rnd (m * (real (unat pan) + 1)) / 128) * rnd (w * e))),
      True)
   \<and> m_volume_lr (channel_new rnd m pan) =
       (rnd (rnd (m * (128 - real (unat pan))) / 128),
        rnd (rnd (m * (real (unat pan) + 1)) / 128))"
  by (auto simp: channel_next_def channel_new_def master_volume_def Let_def)

theorem channel_linear_pan_witness:
  "channel_next (\<lambda>x. x) (channel_new (\<lambda>x. x) (1 / 2) 0x40) (1 / 2, True) (1, False) =
     (\<lparr>m_running = False, m_pan = 0x40, m_volume_lr = (1 / 4, 65 / 256)\<rparr>,
      (1 / 8, 65 / 512), True)"
  using channel_linear_pan [of "\<lambda>x. x" "1 / 2" "0x40" "1 / 2" True 1 False]
  by (simp add: channel_new_def master_volume_def)

section \<open>Verification: track player\<close>

text \<open>
  Claim C8 as stated fails: a track player just constructed for a track whose header flags a
  repeat, with a play count of 2 and a stream that still runs, reports
  \<open>failed_to_repeat\<close>.
\<close>

theorem failed_to_repeat_while_playing:
  "\<not> isl (track_player_new [0x00, 0x22] 1 120 True 0 2 44100)
   \<and> failed_to_repeat (projr (track_player_new [0x00, 0x22] 1 120 True 0 2 44100))
   \<and> m_repeat_tp (projr (track_player_new [0x00, 0x22] 1 120 True 0 2 44100))
   \<and> stream_is_running (m_stream (projr (track_player_new [0x00, 0x22] 1 120 True 0 2 44100)))
   \<and> m_play_count_tp (projr (track_player_new [0x00, 0x22] 1 120 True 0 2 44100)) = 2"
  by (simp add: track_player_new_def music_stream_new_def get_delta_def get_byte_def
      get_delta_loop.simps failed_to_repeat_def stream_is_running_def)

text \<open>
  Claim C8, amended. \<open>failed_to_repeat\<close> is the test \<open>play_count > 1\<close>, whatever the stream and
  the repeat flag. Once the track player has stopped running, it holds exactly when the
  stream is exhausted with a play count above 1 and the track header does not flag a
  repeat. The handling of \<open>jump_to_marker\<close> only lowers the play count, so it never makes
  \<open>failed_to_repeat\<close> true.
\<close>

theorem failed_to_repeat_is_play_count:
  "(failed_to_repeat tp \<longleftrightarrow> 1 < m_play_count_tp tp)
   \<and> (\<not> track_player_is_running tp \<longrightarrow>
        (failed_to_repeat tp \<longleftrightarrow>
           \<not> stream_is_running (m_stream tp) \<and> 1 < m_play_count_tp tp \<and> \<not> m_repeat_tp tp))
   \<and> (on_jump_to_marker tp = Inr tp' \<and> failed_to_repeat tp' \<longrightarrow> failed_to_repeat tp)"
proof -
  have mono: "failed_to_repeat tp"
    if "on_jump_to_marker tp = Inr tp'" "failed_to_repeat tp'"
  proof -
    have "m_play_count_tp tp' = m_play_count_tp tp \<or> m_play_count_tp tp' = m_play_count_tp tp - 1 \<and> m_play_count_tp tp > 0"
      using that(1)
      by (auto simp: on_jump_to_marker_def Let_def split: if_splits sum.splits)
    then show ?thesis
      using that(2)
      using failed_to_repeat_def linorder_less_linear by fastforce
  qed
  show ?thesis
    using mono by (auto simp: failed_to_repeat_def track_player_is_running_def)
qed

theorem failed_to_repeat_is_play_count_witness:
  "\<not> track_player_is_running
       \<lparr>m_play_count_tp = 2, m_repeat_tp = False, m_repeat_start = 0,
        m_stream = \<lparr>m_track_data = [0x00], m_position = 1,
          m_caller_ticks_per_minute = 2646000, m_track_ticks_per_minute = 120,
          m_tick_position = 0, m_tick_fraction = 0, m_next_event_time = 0\<rparr>,
        m_channels = []\<rparr>
   \<and> failed_to_repeat
       \<lparr>m_play_count_tp = 2, m_repeat_tp = False, m_repeat_start = 0,
        m_stream = \<lparr>m_track_data = [0x00], m_position = 1,
          m_caller_ticks_per_minute = 2646000, m_track_ticks_per_minute = 120,
          m_tick_position = 0, m_tick_fraction = 0, m_next_event_time = 0\<rparr>,
        m_channels = []\<rparr>
   \<and> on_jump_to_marker
       \<lparr>m_play_count_tp = 3, m_repeat_tp = False, m_repeat_start = 0,
        m_stream = \<lparr>m_track_data = [0x00], m_position = 1,
          m_caller_ticks_per_minute = 2646000, m_track_ticks_per_minute = 120,
          m_tick_position = 0, m_tick_fraction = 0, m_next_event_time = 0\<rparr>,
        m_channels = []\<rparr>
     = Inr \<lparr>m_play_count_tp = 2, m_repeat_tp = False, m_repeat_start = 0,
        m_stream = \<lparr>m_track_data = [0x00], m_position = 1,
          m_caller_ticks_per_minute = 2646000, m_track_ticks_per_minute = 120,
          m_tick_position = 0, m_tick_fraction = 0, m_next_event_time = 0\<rparr>,
        m_channels = []\<rparr>
   \<and> failed_to_repeat
       \<lparr>m_play_count_tp = 3, m_repeat_tp = False, m_repeat_start = 0,
        m_stream = \<lparr>m_track_data = [0x00], m_position = 1,
          m_caller_ticks_per_minute = 2646000, m_track_ticks_per_minute = 120,
          m_tick_position = 0, m_tick_fraction = 0, m_next_event_time = 0\<rparr>,
        m_channels = []\<rparr>"
proof -
  let ?s = "\<lparr>m_track_data = [0x00], m_position = 1,
          m_caller_ticks_per_minute = 2646000, m_track_ticks_per_minute = 120,
          m_tick_position = 0, m_tick_fraction = 0, m_next_event_time = 0\<rparr>"
  let ?t2 = "\<lparr>m_play_count_tp = 2, m_repeat_tp = False, m_repeat_start = 0,
        m_stream = ?s, m_channels = []\<rparr>"
  let ?t3 = "\<lparr>m_play_count_tp = 3, m_repeat_tp = False, m_repeat_start = 0,
        m_stream = ?s, m_channels = []\<rparr>"
  note T = failed_to_repeat_is_play_count [of ?t3 ?t2]
  have r: "\<not> track_player_is_running ?t2"
    by (simp add: track_player_is_running_def stream_is_running_def)
  have f: "failed_to_repeat ?t2"
    by (simp add: failed_to_repeat_def)
  have j: "on_jump_to_marker ?t3 = Inr ?t2"
    by (simp add: on_jump_to_marker_def)
  have f3: "failed_to_repeat ?t3"
    using T [THEN conjunct2, THEN conjunct2] j f by (elim impE) (rule conjI)
  show ?thesis
    by (intro conjI r f j f3)
qed

section \<open>Verification: music stream parser\<close>

lemma get_delta_loop_fails:
  "(get_delta_loop ms d = Inl e) =
     (e = Read_beyond_end \<and> delta_overruns (m_track_data ms) (m_position ms))"
proof (induction ms d rule: get_delta_loop.induct)
  case (1 ms delta)
  show ?case
  proof (cases "m_position ms < length (m_track_data ms)")
    case False
    then show ?thesis
      by (subst get_delta_loop.simps) (auto simp: get_byte_def delta_overruns_def)
  next
    case True
    let ?b = "m_track_data ms ! m_position ms"
    let ?ms = "ms\<lparr>m_position := m_position ms + 1\<rparr>"
    have gb: "get_byte ms = Inr (?b, ?ms)"
      using True by (simp add: get_byte_def)
    have dr: "drop (m_position ms) (m_track_data ms) = ?b # drop (m_position ms + 1) (m_track_data ms)"
      using True by (simp add: Cons_nth_drop_Suc)
    show ?thesis
    proof (cases "?b AND 0x80 \<noteq> 0")
      case False
      then show ?thesis
        by (subst get_delta_loop.simps) (simp add: gb delta_overruns_def dr Let_def)
    next
      case t: True
      have "(get_delta_loop ?ms (push_bit 7 delta OR ucast (?b AND 0x7f)) = Inl e) =
        (e = Read_beyond_end \<and> delta_overruns (m_track_data ?ms) (m_position ?ms))"
        by (rule "1.IH" [OF gb refl refl t])
      then show ?thesis
        using t by (subst get_delta_loop.simps) (simp add: gb delta_overruns_def dr Let_def)
    qed
  qed
qed

lemma read_event_fails:
  "(read_event c ms = Inl e) =
     (case payload_size c of
        None \<Rightarrow> e = Unsupported_event_code c
      | Some k \<Rightarrow> e = Read_beyond_end \<and> 0 < k
                  \<and> m_position ms + k > length (m_track_data ms))"
  by (auto simp: read_event_def read_byte_event_def get_byte_def get_word_def payload_size_def
      split: if_splits sum.splits)

lemma read_event_ok:
  "read_event c ms = Inr (ev, ms') \<Longrightarrow>
     m_track_data ms' = m_track_data ms
     \<and> m_position ms' = (if c = 0x22 then length (m_track_data ms)
                          else m_position ms + the (payload_size c))"
  by (auto simp: read_event_def read_byte_event_def get_byte_def get_word_def payload_size_def
      split: if_splits sum.splits)


lemma get_event_fails: "(get_event ms = Inl e) = (parse_failure ms = Some e)"
proof (cases "have_event ms")
  case False
  then show ?thesis
    by (simp add: get_event_def parse_failure_def Let_def)
next
  case True
  let ?c = "m_track_data ms ! m_position ms"
  let ?ms1 = "ms\<lparr>m_position := Suc (m_position ms)\<rparr>"
  have lt: "m_position ms < length (m_track_data ms)"
    using True by (simp add: have_event_def)
  then have gb: "get_byte ms = Inr (?c, ?ms1)"
    by (simp add: get_byte_def)
  show ?thesis
  proof (cases "read_event ?c ?ms1")
    case (Inl e')
    then show ?thesis
      using True lt read_event_fails [of ?c ?ms1 e']
      by (auto simp: get_event_def parse_failure_def Let_def gb split: option.splits)
  next
    case (Inr p)
    obtain ev ms2 where p: "p = (ev, ms2)" by (cases p)
    have nf: "\<And>e'. read_event ?c ?ms1 \<noteq> Inl e'"
      using Inr by simp
    obtain k where k: "payload_size ?c = Some k"
      and le: "\<not> (0 < k \<and> m_position ms + 1 + k > length (m_track_data ms))"
      using nf read_event_fails [of ?c ?ms1]
      by (cases "payload_size ?c") auto
    have k0: "k = 0 \<longrightarrow> \<not> m_position ms + 1 + k > length (m_track_data ms)"
      using lt by auto
    have ok: "m_track_data ms2 = m_track_data ms"
      "m_position ms2 = (if ?c = 0x22 then length (m_track_data ms) else m_position ms + 1 + k)"
      using read_event_ok [of ?c ?ms1 ev ms2] Inr p k by auto
    have fit: "\<not> m_position ms + 1 + k > length (m_track_data ms)"
      using le k0 by auto
    have ge: "get_event ms =
        (if m_position ms2 < length (m_track_data ms2) then
           (case get_delta ms2 of
              Inl e \<Rightarrow> Inl e
            | Inr (d, ms3) \<Rightarrow>
                Inr (Some ev, ms3\<lparr>m_next_event_time := m_next_event_time ms3 + d\<rparr>))
         else Inr (Some ev, ms2))"
      using True by (simp add: get_event_def gb Inr p)
    have pf: "parse_failure ms =
        (if ?c \<noteq> 0x22 \<and> m_position ms + 1 + k < length (m_track_data ms)
              \<and> delta_overruns (m_track_data ms) (m_position ms + 1 + k)
         then Some Read_beyond_end else None)"
      using True fit by (simp add: parse_failure_def Let_def k)
    show ?thesis
    proof (cases "m_position ms2 < length (m_track_data ms2)")
      case False
      then have "?c = 0x22 \<or> \<not> m_position ms + 1 + k < length (m_track_data ms)"
        using ok by (auto split: if_splits)
      then show ?thesis
        using False by (auto simp: ge pf)
    next
      case t: True
      then have c: "?c \<noteq> 0x22" "m_position ms + 1 + k < length (m_track_data ms)"
        "m_position ms2 = m_position ms + 1 + k"
        using ok by (auto split: if_splits)
      have "(get_delta ms2 = Inl e) =
          (e = Read_beyond_end \<and> delta_overruns (m_track_data ms) (m_position ms + 1 + k))"
        using c ok by (simp add: get_delta_def get_delta_loop_fails)
      then show ?thesis
        using t c by (auto simp: ge pf split: sum.splits)
    qed
  qed
qed

text \<open>
  Claim C9. \<open>get_event\<close> raises an error exactly in the cases of \<open>parse_failure\<close>, with
  that error: an undefined event code, or a payload or delta read that runs past the end
  of the data; otherwise it returns. \<open>seek\<close> fails exactly for a position above the size
  of the data. The constructor, \<open>get_byte\<close> and \<open>get_word\<close> fail exactly when their read
  runs past the end. The defined codes are the eleven of the specification.
\<close>

theorem music_stream_errors:
  "(get_event ms = Inl e \<longleftrightarrow> parse_failure ms = Some e)
   \<and> ((\<exists>r. get_event ms = Inr r) \<longleftrightarrow> parse_failure ms = None)
   \<and> (seek ms pos = Inl e \<longleftrightarrow> e = Invalid_seek \<and> length (m_track_data ms) < pos)
   \<and> (music_stream_new track_data ticks_per_beat beats_per_minute ticks_per_minute = Inl e
        \<longleftrightarrow> e = Read_beyond_end \<and> delta_overruns track_data 0)
   \<and> (get_byte ms = Inl e
        \<longleftrightarrow> e = Read_beyond_end \<and> length (m_track_data ms) < m_position ms + 1)
   \<and> (get_word ms = Inl e
        \<longleftrightarrow> e = Read_beyond_end \<and> length (m_track_data ms) < m_position ms + 2)
   \<and> (payload_size c \<noteq> None
        \<longleftrightarrow> c \<in> {0x11, 0x12, 0x07, 0x09, 0x0c, 0x0d, 0x23, 0x20, 0x0b, 0x0e, 0x22})"
proof -
  have 1: "get_event ms = Inl e \<longleftrightarrow> parse_failure ms = Some e"
    by (rule get_event_fails)
  have 2: "(\<exists>r. get_event ms = Inr r) \<longleftrightarrow> parse_failure ms = None"
  proof (cases "get_event ms")
    case (Inl e')
    then show ?thesis using get_event_fails [of ms e'] by simp
  next
    case (Inr r)
    have "parse_failure ms \<noteq> Some e'" for e'
      using get_event_fails [of ms e'] Inr by simp
    then show ?thesis using Inr by (cases "parse_failure ms") auto
  qed
  have 3: "seek ms pos = Inl e \<longleftrightarrow> e = Invalid_seek \<and> length (m_track_data ms) < pos"
    by (auto simp: seek_def)
  have 4: "music_stream_new track_data ticks_per_beat beats_per_minute ticks_per_minute = Inl e
        \<longleftrightarrow> e = Read_beyond_end \<and> delta_overruns track_data 0"
    using get_delta_loop_fails
      [of "\<lparr>m_track_data = track_data, m_position = 0,
             m_caller_ticks_per_minute = ticks_per_minute,
             m_track_ticks_per_minute = ucast ticks_per_beat * ucast beats_per_minute,
             m_tick_position = 0, m_tick_fraction = 0, m_next_event_time = 0\<rparr>" 0 e]
    by (auto simp: music_stream_new_def get_delta_def split: sum.splits)
  have 5: "get_byte ms = Inl e
        \<longleftrightarrow> e = Read_beyond_end \<and> length (m_track_data ms) < m_position ms + 1"
    by (auto simp: get_byte_def)
  have 6: "get_word ms = Inl e
        \<longleftrightarrow> e = Read_beyond_end \<and> length (m_track_data ms) < m_position ms + 2"
    by (auto simp: get_word_def Let_def)
  have 7: "payload_size c \<noteq> None
        \<longleftrightarrow> c \<in> {0x11, 0x12, 0x07, 0x09, 0x0c, 0x0d, 0x23, 0x20, 0x0b, 0x0e, 0x22}"
    by (auto simp: payload_size_def)
  show ?thesis
    by (intro conjI 1 2 3 4 5 6 7)
qed

theorem music_stream_errors_witness:
  "parse_failure \<lparr>m_track_data = [0x00, 0x30, 0x00], m_position = 1,
       m_caller_ticks_per_minute = 2646000, m_track_ticks_per_minute = 120,
       m_tick_position = 0, m_tick_fraction = 0, m_next_event_time = 0\<rparr>
     = Some (Unsupported_event_code 0x30)
   \<and> get_event \<lparr>m_track_data = [0x00, 0x30, 0x00], m_position = 1,
       m_caller_ticks_per_minute = 2646000, m_track_ticks_per_minute = 120,
       m_tick_position = 0, m_tick_fraction = 0, m_next_event_time = 0\<rparr>
     = Inl (Unsupported_event_code 0x30)
   \<and> parse_failure \<lparr>m_track_data = [0x00, 0x11, 0x3c, 0x7f, 0x81], m_position = 1,
       m_caller_ticks_per_minute = 2646000, m_track_ticks_per_minute = 120,
       m_tick_position = 0, m_tick_fraction = 0, m_next_event_time = 0\<rparr>
     = Some Read_beyond_end
   \<and> get_event \<lparr>m_track_data = [0x00, 0x11, 0x3c, 0x7f, 0x81], m_position = 1,
       m_caller_ticks_per_minute = 2646000, m_track_ticks_per_minute = 120,
       m_tick_position = 0, m_tick_fraction = 0, m_next_event_time = 0\<rparr>
     = Inl Read_beyond_end"
proof -
  let ?s = "\<lparr>m_track_data = [0x00, 0x30, 0x00], m_position = 1,
       m_caller_ticks_per_minute = 2646000, m_track_ticks_per_minute = 120,
       m_tick_position = 0, m_tick_fraction = 0, m_next_event_time = 0\<rparr>"
  let ?t = "\<lparr>m_track_data = [0x00, 0x11, 0x3c, 0x7f, 0x81], m_position = 1,
       m_caller_ticks_per_minute = 2646000, m_track_ticks_per_minute = 120,
       m_tick_position = 0, m_tick_fraction = 0, m_next_event_time = 0\<rparr>"
  have a: "parse_failure ?s = Some (Unsupported_event_code 0x30)"
    by (simp add: parse_failure_def have_event_def payload_size_def)
  have b: "parse_failure ?t = Some Read_beyond_end"
    by (simp add: parse_failure_def have_event_def payload_size_def delta_overruns_def)
  have a': "get_event ?s = Inl (Unsupported_event_code 0x30)"
    using music_stream_errors [of ?s "Unsupported_event_code 0x30", THEN conjunct1] a
    by (rule iffD2)
  have b': "get_event ?t = Inl Read_beyond_end"
    using music_stream_errors [of ?t Read_beyond_end, THEN conjunct1] b
    by (rule iffD2)
  show ?thesis
    by (intro conjI a a' b b')
qed

section \<open>Verification: silencer\<close>


section \<open>Verification: sinc resampler\<close>






























end
